theory Spec2Isabelle
  imports Complex_Main
begin

section \<open>Python string operations used by the pipeline\<close>

text \<open>
  Python strings are modelled as \<^typ>\<open>string\<close>; text beyond ASCII stands as its UTF-8
  bytes. Substring search, replacement and stripping act on bytes exactly as Python's act
  on code points, since UTF-8 is self-synchronising. Case mapping follows Unicode in Python
  and the locale in the database: \<^verbatim>\<open>str.lower\<close> and SQL's \<^verbatim>\<open>UPPER\<close> are parameters
  of the model, named \<open>lower\<close> and \<open>upper\<close>.
\<close>

fun startswith :: "string \<Rightarrow> string \<Rightarrow> bool" where
  "startswith s [] = True"
| "startswith [] (p # ps) = False"
| "startswith (c # cs) (p # ps) = (c = p \<and> startswith cs ps)"

text \<open>\<^verbatim>\<open>sub in s\<close>: \<open>sub\<close> occurs in \<open>s\<close> as a contiguous substring.\<close>

fun contains :: "string \<Rightarrow> string \<Rightarrow> bool" where
  "contains sub [] = (sub = [])"
| "contains sub (c # cs) = (startswith (c # cs) sub \<or> contains sub cs)"

text \<open>
  \<^verbatim>\<open>s.replace(old, new)\<close>: the non-overlapping occurrences of \<open>old\<close> are replaced
  from left to right in one pass. With an empty \<open>old\<close> Python puts \<open>new\<close> before every
  character and at the end.
\<close>

fun replace :: "string \<Rightarrow> string \<Rightarrow> string \<Rightarrow> string" where
  "replace old new [] = (if old = [] then new else [])"
| "replace old new (c # cs) =
     (if old = [] then new @ c # replace old new cs
      else if startswith (c # cs) old then new @ replace old new (drop (length old - 1) cs)
      else c # replace old new cs)"

text \<open>\<^verbatim>\<open>s.strip(chars)\<close>: leading and trailing characters of \<open>chars\<close> are removed.\<close>

definition strip :: "string \<Rightarrow> string \<Rightarrow> string" where
  "strip chars s =
     rev (dropWhile (\<lambda>c. c \<in> set chars) (rev (dropWhile (\<lambda>c. c \<in> set chars) s)))"

section \<open>Column normalisation (energy_etl_dag.py, clean_and_transform_data)\<close>

text \<open>The subscript two, U+2082, in UTF-8.\<close>

definition subscript_two :: string where
  "subscript_two = [CHR 0xE2, CHR 0x82, CHR 0x82]"

text \<open>
  The rewriting is one chain of calls in the source; here it is cut after the last
  replacement of a separator, before the pairs of underscores are merged.
\<close>

definition rewrite_separators :: "(string \<Rightarrow> string) \<Rightarrow> string \<Rightarrow> string" where
  "rewrite_separators lower col =
     replace ''-'' ''_''
       (replace '' '' ''_''
         (replace '' - '' ''_''
           (replace '')'' []
             (replace ''('' []
               (replace subscript_two ''2'' (lower col))))))"

definition normalize_column :: "(string \<Rightarrow> string) \<Rightarrow> string \<Rightarrow> string" where
  "normalize_column lower col =
     strip ''_'' (replace ''__'' ''_'' (rewrite_separators lower col))"

text \<open>
  The renaming in the words of its description: a space or a hyphen becomes an
  underscore, every run of underscores becomes a single one, and the characters that are
  neither separators nor parentheses are kept.
\<close>

definition separator_to_underscore :: "char \<Rightarrow> char" where
  "separator_to_underscore c = (if c = CHR '' '' \<or> c = CHR ''-'' then CHR ''_'' else c)"

fun collapse_underscores :: "string \<Rightarrow> string" where
  "collapse_underscores (c # d # cs) =
     (if c = CHR ''_'' \<and> d = CHR ''_'' then collapse_underscores (d # cs)
      else c # collapse_underscores (d # cs))"
| "collapse_underscores cs = cs"

definition kept_char :: "char \<Rightarrow> bool" where
  "kept_char c = (c \<notin> set '' -()_'')"

section \<open>Data frames\<close>

text \<open>
  A float64 value is a rational, an infinity or NaN; an int64 value is a rational too.
  A cell of a frame is a string, a number (NaN is also the missing value), a boolean or a
  date. A frame has its column names and its rows, each row holding one cell per column.
\<close>

datatype fnum = Fin rat | PInf | NInf | NaN

datatype date = Date nat nat nat

datatype cell = Str string | Num fnum | Bool bool | Day date

record frame =
  columns :: "string list"
  rows :: "cell list list"

definition wf_frame :: "frame \<Rightarrow> bool" where
  "wf_frame df = list_all (\<lambda>r. length r = length (columns df)) (rows df)"

fun index_of :: "'a \<Rightarrow> 'a list \<Rightarrow> nat" where
  "index_of x [] = 0"
| "index_of x (y # ys) = (if x = y then 0 else Suc (index_of x ys))"

text \<open>\<^verbatim>\<open>row[name]\<close> for a name among the columns.\<close>

definition get_cell :: "string list \<Rightarrow> string \<Rightarrow> cell list \<Rightarrow> cell" where
  "get_cell cols name r = r ! index_of name cols"

text \<open>
  \<^verbatim>\<open>df[name] = values\<close>: an existing column is overwritten in place, a new one is
  appended on the right. The new cell of a row is computed from the row.
\<close>

definition set_cell :: "string list \<Rightarrow> string \<Rightarrow> cell \<Rightarrow> cell list \<Rightarrow> cell list" where
  "set_cell cols name v r = (if name \<in> set cols then r[index_of name cols := v] else r @ [v])"

definition assign :: "string \<Rightarrow> (cell list \<Rightarrow> cell) \<Rightarrow> frame \<Rightarrow> frame" where
  "assign name f df =
     \<lparr>columns = (if name \<in> set (columns df) then columns df else columns df @ [name]),
      rows = map (\<lambda>r. set_cell (columns df) name (f r) r) (rows df)\<rparr>"

text \<open>\<^verbatim>\<open>drop_duplicates()\<close> keeps the first of equal rows; missing values are equal.\<close>

fun drop_duplicates :: "'a list \<Rightarrow> 'a list" where
  "drop_duplicates [] = []"
| "drop_duplicates (x # xs) = x # drop_duplicates (filter (\<lambda>y. y \<noteq> x) xs)"

text \<open>
  \<^verbatim>\<open>pd.to_numeric(..., errors='coerce')\<close> on one cell. How pandas reads a number out of
  a string is the parameter \<open>parse\<close>, which yields NaN for a string it cannot read.
\<close>

fun to_numeric :: "(string \<Rightarrow> fnum) \<Rightarrow> cell \<Rightarrow> fnum" where
  "to_numeric parse (Str s) = parse s"
| "to_numeric parse (Num x) = x"
| "to_numeric parse (Bool b) = Fin (if b then 1 else 0)"
| "to_numeric parse (Day d) = NaN"

fun num_ge :: "fnum \<Rightarrow> rat \<Rightarrow> bool" where
  "num_ge (Fin x) k = (k \<le> x)"
| "num_ge PInf k = True"
| "num_ge NInf k = False"
| "num_ge NaN k = False"

fun num_le :: "fnum \<Rightarrow> rat \<Rightarrow> bool" where
  "num_le (Fin x) k = (x \<le> k)"
| "num_le PInf k = False"
| "num_le NInf k = True"
| "num_le NaN k = False"

section \<open>The clean/transform stage (clean_and_transform_data)\<close>

datatype error =
    FileNotFound string
  | DuplicateColumnNames
  | ColumnExists string
  | ValueError string
  | FieldError string

definition standardize_columns :: "(string \<Rightarrow> string) \<Rightarrow> frame \<Rightarrow> frame" where
  "standardize_columns lower df = df\<lparr>columns := map (normalize_column lower) (columns df)\<rparr>"

definition handle_missing_codes :: "frame \<Rightarrow> frame" where
  "handle_missing_codes df =
     (if ''code'' \<in> set (columns df)
      then assign ''code''
             (\<lambda>r. if get_cell (columns df) ''code'' r = Str [] then Num NaN
                  else get_cell (columns df) ''code'' r) df
      else df)"

definition remove_duplicates :: "frame \<Rightarrow> frame" where
  "remove_duplicates df = df\<lparr>rows := drop_duplicates (rows df)\<rparr>"

definition year_in_range :: "cell \<Rightarrow> bool" where
  "year_in_range c = (case c of Num y \<Rightarrow> num_ge y 1750 \<and> num_le y 2025 | _ \<Rightarrow> False)"

definition validate_years :: "(string \<Rightarrow> fnum) \<Rightarrow> frame \<Rightarrow> frame" where
  "validate_years parse df =
     (if ''year'' \<in> set (columns df)
      then (let df' = assign ''year''
                        (\<lambda>r. Num (to_numeric parse (get_cell (columns df) ''year'' r))) df
            in df'\<lparr>rows := filter (\<lambda>r. year_in_range (get_cell (columns df') ''year'' r))
                               (rows df')\<rparr>)
      else df)"

definition add_metadata :: "string \<Rightarrow> date \<Rightarrow> frame \<Rightarrow> frame" where
  "add_metadata key today df =
     assign ''last_updated'' (\<lambda>r. Day today)
       (assign ''data_quality_flag'' (\<lambda>r. Str ''clean'')
         (assign ''data_source'' (\<lambda>r. Str key) df))"

definition aggregates :: "string list" where
  "aggregates = [''World'', ''Africa'', ''Asia'', ''Europe'', ''OECD'', ''EU'', ''ASEAN'']"

text \<open>
  \<^verbatim>\<open>str(x)\<close>: a string is itself; how Python prints any other value is the parameter
  \<open>fmt\<close>.
\<close>

definition py_str :: "(cell \<Rightarrow> string) \<Rightarrow> cell \<Rightarrow> string" where
  "py_str fmt x = (case x of Str s \<Rightarrow> s | _ \<Rightarrow> fmt x)"

definition classify :: "(cell \<Rightarrow> string) \<Rightarrow> cell \<Rightarrow> string" where
  "classify fmt x =
     (if list_ex (\<lambda>agg. contains agg (py_str fmt x)) aggregates then ''aggregate''
      else ''country'')"

definition add_entity_type :: "(cell \<Rightarrow> string) \<Rightarrow> frame \<Rightarrow> frame" where
  "add_entity_type fmt df =
     (if ''entity'' \<in> set (columns df)
      then assign ''entity_type''
             (\<lambda>r. Str (classify fmt (get_cell (columns df) ''entity'' r))) df
      else df)"

text \<open>
  The body of the loop for one dataset. Two columns of one name after the renaming make
  the stage raise (no later than when the frame is written to parquet), which aborts
  the run.
\<close>

definition clean_dataset ::
  "(string \<Rightarrow> string) \<Rightarrow> (string \<Rightarrow> fnum) \<Rightarrow> (cell \<Rightarrow> string) \<Rightarrow> date \<Rightarrow> string \<Rightarrow>
     frame \<Rightarrow> error + frame" where
  "clean_dataset lower parse fmt today key df =
     (let df1 = standardize_columns lower df in
      if \<not> distinct (columns df1) then Inl DuplicateColumnNames
      else Inr (add_entity_type fmt
                 (add_metadata key today
                   (validate_years parse
                     (remove_duplicates
                       (handle_missing_codes df1))))))"

record cleaning_entry =
  dataset :: string
  original_rows :: nat
  cleaned_rows :: nat
  removed_rows :: int

text \<open>
  The loop over the dataset keys. \<open>files\<close> holds the frames of \<^verbatim>\<open>/tmp/{key}.parquet\<close>;
  \<open>now key\<close> is the date the clock shows while \<open>key\<close> is cleaned. The result is the
  frames written to \<^verbatim>\<open>/tmp/{key}_cleaned.parquet\<close> and the cleaning summary.
\<close>

fun clean_and_transform_data ::
  "(string \<Rightarrow> string) \<Rightarrow> (string \<Rightarrow> fnum) \<Rightarrow> (cell \<Rightarrow> string) \<Rightarrow> (string \<Rightarrow> date) \<Rightarrow> (string \<rightharpoonup> frame) \<Rightarrow>
     string list \<Rightarrow> error + ((string \<times> frame) list \<times> cleaning_entry list)" where
  "clean_and_transform_data lower parse fmt now files [] = Inr ([], [])"
| "clean_and_transform_data lower parse fmt now files (key # keys) =
     (case files key of
        None \<Rightarrow> Inl (FileNotFound key)
      | Some df \<Rightarrow>
          (case clean_dataset lower parse fmt (now key) key df of
             Inl e \<Rightarrow> Inl e
           | Inr out \<Rightarrow>
               (case clean_and_transform_data lower parse fmt now files keys of
                  Inl e \<Rightarrow> Inl e
                | Inr (outs, summary) \<Rightarrow>
                    Inr ((key, out) # outs,
                         \<lparr>dataset = key,
                          original_rows = length (rows df),
                          cleaned_rows = length (rows out),
                          removed_rows = int (length (rows df)) - int (length (rows out))\<rparr>
                         # summary))))"

section \<open>The database-load stage (load_to_postgres)\<close>

text \<open>
  \<^verbatim>\<open>df.insert(0, 'id', range(1, len(df) + 1))\<close>; pandas refuses to insert a column
  whose name the frame already has.
\<close>

definition insert_id :: "frame \<Rightarrow> error + frame" where
  "insert_id df =
     (if ''id'' \<in> set (columns df) then Inl (ColumnExists ''id'')
      else Inr \<lparr>columns = ''id'' # columns df,
                rows = map (\<lambda>(i, r). Num (Fin (of_int i)) # r)
                         (zip [1 ..int (length (rows df))] (rows df))\<rparr>)"

record load_entry =
  loaded_dataset :: string
  table_name :: string
  rows_loaded :: nat

text \<open>
  One dataset: the cleaned frame gets its ids and replaces the table of the database.
\<close>

definition load_dataset ::
  "(string \<rightharpoonup> frame) \<Rightarrow> (string \<rightharpoonup> frame) \<Rightarrow> string \<Rightarrow>
     error + ((string \<rightharpoonup> frame) \<times> load_entry)" where
  "load_dataset cleaned db key =
     (case cleaned key of
        None \<Rightarrow> Inl (FileNotFound key)
      | Some df \<Rightarrow>
          (case insert_id df of
             Inl e \<Rightarrow> Inl e
           | Inr df' \<Rightarrow>
               (let db' = db(''cleaned_'' @ key \<mapsto> df') in
                Inr (db', \<lparr>loaded_dataset = key, table_name = ''cleaned_'' @ key,
                           rows_loaded = length (rows df')\<rparr>))))"

fun load_to_postgres ::
  "(string \<rightharpoonup> frame) \<Rightarrow> (string \<rightharpoonup> frame) \<Rightarrow> string list \<Rightarrow>
     error + ((string \<rightharpoonup> frame) \<times> load_entry list)" where
  "load_to_postgres cleaned db [] = Inr (db, [])"
| "load_to_postgres cleaned db (key # keys) =
     (case load_dataset cleaned db key of
        Inl e \<Rightarrow> Inl e
      | Inr (db', entry) \<Rightarrow>
          (case load_to_postgres cleaned db' keys of
             Inl e \<Rightarrow> Inl e
           | Inr (db'', entries) \<Rightarrow> Inr (db'', entry # entries)))"

text \<open>\<^verbatim>\<open>df[name]\<close>: the cells of one column, from the first row to the last.\<close>

definition column_values :: "string \<Rightarrow> frame \<Rightarrow> cell list" where
  "column_values name df = map (get_cell (columns df) name) (rows df)"


text \<open>The frame as it stands after the duplicate removal, before the years are checked.\<close>

definition deduplicated :: "(string \<Rightarrow> string) \<Rightarrow> frame \<Rightarrow> frame" where
  "deduplicated lower df =
     remove_duplicates (handle_missing_codes (standardize_columns lower df))"

text \<open>
  Two frames hold the same data but for the date of the run: the same columns, the same
  number of rows, and the same cells in every column other than last_updated.
\<close>

definition same_but_last_updated :: "frame \<Rightarrow> frame \<Rightarrow> bool" where
  "same_but_last_updated a b =
     (columns a = columns b \<and> length (rows a) = length (rows b) \<and>
      list_all (\<lambda>m. m = ''last_updated'' \<or> column_values m a = column_values m b)
        (columns a))"

text \<open>
  Two runs of the stage agree: both fail with the same error, or both succeed with the
  same cleaning summary and, dataset by dataset, the same data but for the date.
\<close>

fun same_runs ::
  "error + ((string \<times> frame) list \<times> cleaning_entry list) \<Rightarrow>
   error + ((string \<times> frame) list \<times> cleaning_entry list) \<Rightarrow> bool" where
  "same_runs (Inl e1) (Inl e2) = (e1 = e2)"
| "same_runs (Inr (outs1, summary1)) (Inr (outs2, summary2)) =
     (summary1 = summary2 \<and>
      list_all2 (\<lambda>(k1, a) (k2, b). k1 = k2 \<and> same_but_last_updated a b) outs1 outs2)"
| "same_runs (Inl e) (Inr r) = False"
| "same_runs (Inr r) (Inl e) = False"

section \<open>The data models (backend/api/models.py)\<close>

text \<open>
  The four tables share the columns id, entity, code, year, data_source,
  data_quality_flag, last_updated and entity_type; the measures of a row are kept by
  field name. A measure is a nullable float.
\<close>

record row =
  row_id :: int
  entity :: string
  code :: "string option"
  year :: int
  measures :: "(string \<times> rat option) list"
  data_source :: string
  data_quality_flag :: string
  last_updated :: date
  entity_type :: "string option"

datatype model =
    CleanedCo2Emissions
  | CleanedElectricityProduction
  | CleanedEnergyProdCons
  | CleanedOilProduction

text \<open>The measure fields each model declares, each with its database column.\<close>

fun measure_fields :: "model \<Rightarrow> (string \<times> string) list" where
  "measure_fields CleanedCo2Emissions = [(''annual_co2_emissions'', ''annual_co2_emissions'')]"
| "measure_fields CleanedElectricityProduction =
     [(''other_renewables_excluding_bioenergy'',
       ''other_renewables_excluding_bioenergy_twh_adapted_for_visualizat''),
      (''electricity_from_bioenergy'',
       ''electricity_from_bioenergy_twh_adapted_for_visualization_of_cha''),
      (''electricity_from_solar'',
       ''electricity_from_solar_twh_adapted_for_visualization_of_chart_e''),
      (''electricity_from_wind'',
       ''electricity_from_wind_twh_adapted_for_visualization_of_chart_el''),
      (''electricity_from_hydro'',
       ''electricity_from_hydro_twh_adapted_for_visualization_of_chart_e''),
      (''electricity_from_nuclear'',
       ''electricity_from_nuclear_twh_adapted_for_visualization_of_chart''),
      (''electricity_from_oil'',
       ''electricity_from_oil_twh_adapted_for_visualization_of_chart_ele''),
      (''electricity_from_gas'',
       ''electricity_from_gas_twh_adapted_for_visualization_of_chart_ele''),
      (''electricity_from_coal'',
       ''electricity_from_coal_twh_adapted_for_visualization_of_chart_el'')]"
| "measure_fields CleanedEnergyProdCons =
     [(''consumption_based_energy'', ''consumption_based_energy''),
      (''production_based_energy'', ''production_based_energy'')]"
| "measure_fields CleanedOilProduction = [(''oil_production_twh'', ''oil_production_twh'')]"

definition model_fields :: "model \<Rightarrow> (string \<times> string) list" where
  "model_fields m =
     [(''id'', ''id''), (''entity'', ''entity''), (''code'', ''code''), (''year'', ''year'')]
     @ measure_fields m
     @ [(''data_source'', ''data_source''), (''data_quality_flag'', ''data_quality_flag''),
        (''last_updated'', ''last_updated''), (''entity_type'', ''entity_type'')]"

definition field_names :: "model \<Rightarrow> string list" where
  "field_names m = map fst (model_fields m)"

definition db_columns :: "model \<Rightarrow> string list" where
  "db_columns m = map snd (model_fields m)"

datatype sqlval = Null | IntV int | FloatV rat | TextV string | DateV date

text \<open>The value of a declared field in a row.\<close>

definition field_value :: "string \<Rightarrow> row \<Rightarrow> sqlval" where
  "field_value f r =
     (if f = ''id'' then IntV (row_id r)
      else if f = ''entity'' then TextV (entity r)
      else if f = ''code'' then (case code r of None \<Rightarrow> Null | Some c \<Rightarrow> TextV c)
      else if f = ''year'' then IntV (year r)
      else if f = ''data_source'' then TextV (data_source r)
      else if f = ''data_quality_flag'' then TextV (data_quality_flag r)
      else if f = ''last_updated'' then DateV (last_updated r)
      else if f = ''entity_type'' then (case entity_type r of None \<Rightarrow> Null | Some t \<Rightarrow> TextV t)
      else (case map_of (measures r) f of Some (Some x) \<Rightarrow> FloatV x | _ \<Rightarrow> Null))"

section \<open>Query sets (backend/api/views.py)\<close>

type_synonym query_params = "string \<rightharpoonup> string"

text \<open>
  \<^verbatim>\<open>if p: qs = f(p, qs)\<close> for a parameter read with \<^verbatim>\<open>query_params.get(name, None)\<close>:
  the step is taken when the value is there and is not the empty string.
\<close>

definition when_given :: "string option \<Rightarrow> (string \<Rightarrow> 'a \<Rightarrow> 'a) \<Rightarrow> 'a \<Rightarrow> 'a" where
  "when_given p f qs = (case p of None \<Rightarrow> qs | Some v \<Rightarrow> if v = [] then qs else f v qs)"

definition when_given_try ::
  "string option \<Rightarrow> (string \<Rightarrow> 'a \<Rightarrow> error + 'a) \<Rightarrow> 'a \<Rightarrow> error + 'a" where
  "when_given_try p f qs =
     (case p of None \<Rightarrow> Inr qs | Some v \<Rightarrow> if v = [] then Inr qs else f v qs)"

text \<open>
  \<^verbatim>\<open>entity__icontains\<close>: the upper-cased entity contains the upper-cased value, both
  upper-cased by the database.
\<close>

definition icontains :: "(string \<Rightarrow> string) \<Rightarrow> string \<Rightarrow> string \<Rightarrow> bool" where
  "icontains upper v s = contains (upper v) (upper s)"

text \<open>
  A lookup on the integer field year turns its value into an integer with Python's
  \<^verbatim>\<open>int()\<close>, the parameter \<open>to_int\<close>; where that raises, the lookup raises.
\<close>

definition filter_year ::
  "(string \<Rightarrow> int option) \<Rightarrow> (int \<Rightarrow> int \<Rightarrow> bool) \<Rightarrow> string \<Rightarrow> row list \<Rightarrow> error + row list" where
  "filter_year to_int cmp v qs =
     (case to_int v of
        None \<Rightarrow> Inl (ValueError v)
      | Some n \<Rightarrow> Inr (filter (\<lambda>r. cmp (year r) n) qs))"

text \<open>
  get_queryset is the same text in the four view sets; it reads the columns the four
  models share.
\<close>

definition get_queryset ::
  "(string \<Rightarrow> string) \<Rightarrow> (string \<Rightarrow> int option) \<Rightarrow> query_params \<Rightarrow> row list \<Rightarrow>
     error + row list" where
  "get_queryset upper to_int params table =
     (let entity_p = params ''entity'';
          code_p = params ''code'';
          year_p = params ''year'';
          entity_type_p = params ''entity_type'';
          year_min = params ''year_min'';
          year_max = params ''year_max'';
          qs1 = when_given entity_p (\<lambda>v. filter (\<lambda>r. icontains upper v (entity r))) table;
          qs2 = when_given code_p (\<lambda>v. filter (\<lambda>r. code r = Some v)) qs1
      in case when_given_try year_p (filter_year to_int (=)) qs2 of
           Inl e \<Rightarrow> Inl e
         | Inr qs3 \<Rightarrow>
             (let qs4 = when_given entity_type_p (\<lambda>v. filter (\<lambda>r. entity_type r = Some v)) qs3
              in case when_given_try year_min (filter_year to_int (\<ge>)) qs4 of
                   Inl e \<Rightarrow> Inl e
                 | Inr qs5 \<Rightarrow> when_given_try year_max (filter_year to_int (\<le>)) qs5))"

text \<open>
  What the request asks of a row, parameter by parameter: a parameter that is given (and
  not empty) must be satisfied by the row.
\<close>

definition asked :: "string option \<Rightarrow> (string \<Rightarrow> bool) \<Rightarrow> bool" where
  "asked p holds = (case p of None \<Rightarrow> True | Some v \<Rightarrow> v = [] \<or> holds v)"

definition satisfies ::
  "(string \<Rightarrow> string) \<Rightarrow> (string \<Rightarrow> int option) \<Rightarrow> query_params \<Rightarrow> row \<Rightarrow> bool" where
  "satisfies upper to_int params r =
     (asked (params ''entity'') (\<lambda>v. icontains upper v (entity r))
      \<and> asked (params ''code'') (\<lambda>v. code r = Some v)
      \<and> asked (params ''year'') (\<lambda>v. to_int v = Some (year r))
      \<and> asked (params ''entity_type'') (\<lambda>v. entity_type r = Some v)
      \<and> asked (params ''year_min'') (\<lambda>v. case to_int v of None \<Rightarrow> False | Some n \<Rightarrow> n \<le> year r)
      \<and> asked (params ''year_max'') (\<lambda>v. case to_int v of None \<Rightarrow> False | Some n \<Rightarrow> year r \<le> n))"

text \<open>A year parameter that is given can be read as an integer.\<close>

definition readable :: "(string \<Rightarrow> int option) \<Rightarrow> string option \<Rightarrow> bool" where
  "readable to_int p = asked p (\<lambda>v. to_int v \<noteq> None)"

section \<open>Aggregates\<close>

datatype aggregate = Count string | Avg string | Sum string | Max string | Min string

fun source_field :: "aggregate \<Rightarrow> string" where
  "source_field (Count f) = f"
| "source_field (Avg f) = f"
| "source_field (Sum f) = f"
| "source_field (Max f) = f"
| "source_field (Min f) = f"

fun sql_num :: "sqlval \<Rightarrow> rat option" where
  "sql_num (IntV i) = Some (of_int i)"
| "sql_num (FloatV x) = Some x"
| "sql_num v = None"

definition is_int :: "sqlval \<Rightarrow> bool" where
  "is_int v = (case v of IntV i \<Rightarrow> True | _ \<Rightarrow> False)"

text \<open>
  The aggregates of the views are taken over numbers. Nulls are skipped; over no value
  at all a count is 0 and every other aggregate is null.
\<close>

definition numbers :: "sqlval list \<Rightarrow> rat list" where
  "numbers vs = concat (map (\<lambda>v. case sql_num v of None \<Rightarrow> [] | Some x \<Rightarrow> [x]) vs)"

definition as_sql :: "bool \<Rightarrow> rat \<Rightarrow> sqlval" where
  "as_sql whole x = (if whole then IntV \<lfloor>x\<rfloor> else FloatV x)"

definition eval_aggregate :: "aggregate \<Rightarrow> row list \<Rightarrow> sqlval" where
  "eval_aggregate a qs =
     (let vs = filter (\<lambda>v. v \<noteq> Null) (map (field_value (source_field a)) qs);
          ns = numbers vs;
          whole = list_all is_int vs
      in case a of
           Count f \<Rightarrow> IntV (int (length vs))
         | Avg f \<Rightarrow> (if ns = [] then Null else FloatV (sum_list ns / of_nat (length ns)))
         | Sum f \<Rightarrow> (if ns = [] then Null else as_sql whole (sum_list ns))
         | Max f \<Rightarrow> (if ns = [] then Null else as_sql whole (fold max (tl ns) (hd ns)))
         | Min f \<Rightarrow> (if ns = [] then Null else as_sql whole (fold min (tl ns) (hd ns))))"

text \<open>
  \<^verbatim>\<open>queryset.aggregate(alias=Agg('field'), ...)\<close>: a field name the model does not
  declare cannot be resolved, whatever the rows are.
\<close>

definition aggregate ::
  "model \<Rightarrow> (string \<times> aggregate) list \<Rightarrow> row list \<Rightarrow> error + (string \<times> sqlval) list" where
  "aggregate m spec qs =
     (case find (\<lambda>(alias, a). source_field a \<notin> set (field_names m)) spec of
        Some (alias, a) \<Rightarrow> Inl (FieldError (source_field a))
      | None \<Rightarrow> Inr (map (\<lambda>(alias, a). (alias, eval_aggregate a qs)) spec))"

section \<open>The summary endpoints\<close>

text \<open>
  \<open>backends\<close> stands for the search and ordering filters of the REST framework, which
  \<^verbatim>\<open>filter_queryset\<close> applies to the query set.
\<close>

definition summary ::
  "model \<Rightarrow> (string \<times> aggregate) list \<Rightarrow> (string \<Rightarrow> string) \<Rightarrow> (string \<Rightarrow> int option) \<Rightarrow>
   (query_params \<Rightarrow> row list \<Rightarrow> row list) \<Rightarrow> query_params \<Rightarrow> row list \<Rightarrow>
   error + (string \<times> sqlval) list" where
  "summary m spec upper to_int backends params table =
     (case get_queryset upper to_int params table of
        Inl e \<Rightarrow> Inl e
      | Inr qs \<Rightarrow> aggregate m spec (backends params qs))"

definition Co2Emissions_stats :: "(string \<times> aggregate) list" where
  "Co2Emissions_stats =
     [(''total_records'', Count ''id''),
      (''avg_emissions'', Avg ''annual_co2_emissions''),
      (''max_emissions'', Max ''annual_co2_emissions''),
      (''min_emissions'', Min ''annual_co2_emissions''),
      (''latest_year'', Max ''year''),
      (''earliest_year'', Min ''year'')]"

definition ElectricityProduction_stats :: "(string \<times> aggregate) list" where
  "ElectricityProduction_stats =
     [(''total_records'', Count ''id''),
      (''avg_fossil'', Avg ''electricity_from_fossil_fuels_twh''),
      (''avg_nuclear'', Avg ''electricity_from_nuclear_twh''),
      (''avg_renewables'', Avg ''electricity_from_renewables_twh''),
      (''total_fossil'', Sum ''electricity_from_fossil_fuels_twh''),
      (''total_nuclear'', Sum ''electricity_from_nuclear_twh''),
      (''total_renewables'', Sum ''electricity_from_renewables_twh'')]"

definition EnergyProdCons_stats :: "(string \<times> aggregate) list" where
  "EnergyProdCons_stats =
     [(''total_records'', Count ''id''),
      (''avg_consumption'', Avg ''primary_energy_consumption_twh''),
      (''max_consumption'', Max ''primary_energy_consumption_twh''),
      (''total_consumption'', Sum ''primary_energy_consumption_twh'')]"

definition OilProduction_stats :: "(string \<times> aggregate) list" where
  "OilProduction_stats =
     [(''total_records'', Count ''id''),
      (''avg_production'', Avg ''oil_production_twh''),
      (''max_production'', Max ''oil_production_twh''),
      (''total_production'', Sum ''oil_production_twh'')]"

definition Co2Emissions_summary where
  "Co2Emissions_summary = summary CleanedCo2Emissions Co2Emissions_stats"

definition ElectricityProduction_summary where
  "ElectricityProduction_summary = summary CleanedElectricityProduction ElectricityProduction_stats"

definition EnergyProdCons_summary where
  "EnergyProdCons_summary = summary CleanedEnergyProdCons EnergyProdCons_stats"

definition OilProduction_summary where
  "OilProduction_summary = summary CleanedOilProduction OilProduction_stats"

section \<open>Sample inputs\<close>

text \<open>
  The case mappings of ASCII text, on which Python's \<^verbatim>\<open>str.lower\<close> and SQL's
  \<^verbatim>\<open>UPPER\<close> agree with them. They stand for the parameters \<open>lower\<close> and \<open>upper\<close>
  where the model is run on concrete ASCII names.
\<close>

definition ascii_lower :: "string \<Rightarrow> string" where
  "ascii_lower s =
     map (\<lambda>c. let n = (of_char c :: nat) in if 65 \<le> n \<and> n \<le> 90 then char_of (n + 32) else c) s"

definition ascii_upper :: "string \<Rightarrow> string" where
  "ascii_upper s =
     map (\<lambda>c. let n = (of_char c :: nat) in if 97 \<le> n \<and> n \<le> 122 then char_of (n - 32) else c) s"

text \<open>
  A reader of plain decimal literals (a sign, digits, a fraction), as pandas reads them;
  every other string is NaN here. It stands for the parameter \<open>parse\<close> where the model
  is run on a concrete frame.
\<close>

definition is_digit :: "char \<Rightarrow> bool" where
  "is_digit c = (let n = (of_char c :: nat) in 48 \<le> n \<and> n \<le> 57)"

definition digits_value :: "string \<Rightarrow> nat" where
  "digits_value ds = foldl (\<lambda>a c. 10 * a + ((of_char c :: nat) - 48)) 0 ds"

definition parse_decimal :: "string \<Rightarrow> fnum" where
  "parse_decimal s =
     (let neg = (s \<noteq> [] \<and> hd s = CHR ''-'');
          u = (if s \<noteq> [] \<and> (hd s = CHR ''-'' \<or> hd s = CHR ''+'') then tl s else s);
          ip = takeWhile is_digit u;
          rest = dropWhile is_digit u;
          fp = (if rest \<noteq> [] \<and> hd rest = CHR ''.'' then tl rest else rest)
      in if (ip = [] \<and> fp = []) \<or> \<not> list_all is_digit fp then NaN
         else Fin ((if neg then - 1 else 1) *
                   (of_nat (digits_value ip) + of_nat (digits_value fp) / 10 ^ length fp)))"

definition sample_frame :: frame where
  "sample_frame =
     \<lparr>columns = [''Entity'', ''Code'', ''Year'', ''Annual CO2 emissions''],
      rows = [[Str ''France'', Str ''FRA'', Num (Fin 2020), Num (Fin 300)],
              [Str ''European Union (27)'', Str [], Num (Fin 2021), Num (Fin 2800)],
              [Str ''France'', Str ''FRA'', Num (Fin 2020), Num (Fin 300)],
              [Str ''France'', Str ''FRA'', Num (Fin 1700), Num (Fin 1)],
              [Str ''France'', Str ''FRA'', Num NaN, Num (Fin 2)]]\<rparr>"

definition sample_cleaned :: frame where
  "sample_cleaned =
     \<lparr>columns = [''entity'', ''code'', ''year'', ''annual_co2_emissions'', ''data_source'',
                 ''data_quality_flag'', ''last_updated'', ''entity_type''],
      rows = [[Str ''France'', Str ''FRA'', Num (Fin 2020), Num (Fin 300),
               Str ''co2_emissions'', Str ''clean'', Day (Date 2025 11 19), Str ''country''],
              [Str ''European Union (27)'', Num NaN, Num (Fin 2021), Num (Fin 2800),
               Str ''co2_emissions'', Str ''clean'', Day (Date 2025 11 19),
               Str ''aggregate'']]\<rparr>"

text \<open>
  A reader of plain integer literals (a sign, digits), as Python's \<^verbatim>\<open>int()\<close> reads
  them; every other string is refused here. It stands for the parameter \<open>to_int\<close> where
  the model is run on a concrete request.
\<close>

definition parse_int :: "string \<Rightarrow> int option" where
  "parse_int s =
     (let neg = (s \<noteq> [] \<and> hd s = CHR ''-'');
          u = (if s \<noteq> [] \<and> (hd s = CHR ''-'' \<or> hd s = CHR ''+'') then tl s else s)
      in if u = [] \<or> \<not> list_all is_digit u then None
         else Some ((if neg then - 1 else 1) * int (digits_value u)))"

definition sample_row :: "int \<Rightarrow> string \<Rightarrow> string \<Rightarrow> int \<Rightarrow> rat \<Rightarrow> row" where
  "sample_row i e c y x =
     \<lparr>row_id = i, entity = e, code = Some c, year = y,
      measures = [(''annual_co2_emissions'', Some x)],
      data_source = ''co2_emissions'', data_quality_flag = ''clean'',
      last_updated = Date 2025 11 19,
      entity_type = Some (classify (\<lambda>c. ''nan'') (Str e))\<rparr>"

definition sample_table :: "row list" where
  "sample_table =
     [sample_row 1 ''France'' ''FRA'' 2020 300,
      sample_row 2 ''France'' ''FRA'' 2021 310,
      sample_row 3 ''Germany'' ''DEU'' 2020 700,
      sample_row 4 ''French Guiana'' ''GUF'' 2020 1]"

section \<open>Properties of the string and frame operations\<close>

lemma startswith_iff: "startswith s p \<longleftrightarrow> (\<exists>q. s = p @ q)"
  by (induction s p rule: startswith.induct) auto

lemma contains_iff: "contains sub s \<longleftrightarrow> (\<exists>p q. s = p @ sub @ q)"
proof (induction s)
  case Nil
  then show ?case by auto
next
  case (Cons c cs)
  show ?case
  proof
    assume "contains sub (c # cs)"
    then consider "startswith (c # cs) sub" | "contains sub cs" by auto
    then show "\<exists>p q. c # cs = p @ sub @ q"
    proof cases
      case 1
      then obtain q where "c # cs = sub @ q" by (auto simp: startswith_iff)
      then have "c # cs = [] @ sub @ q" by simp
      then show ?thesis by blast
    next
      case 2
      then obtain p q where "cs = p @ sub @ q" using Cons.IH by auto
      then have "c # cs = (c # p) @ sub @ q" by simp
      then show ?thesis by blast
    qed
  next
    assume "\<exists>p q. c # cs = p @ sub @ q"
    then obtain p q where pq: "c # cs = p @ sub @ q" by auto
    show "contains sub (c # cs)"
    proof (cases p)
      case Nil
      with pq have "startswith (c # cs) sub" by (auto simp: startswith_iff)
      then show ?thesis by simp
    next
      case (Cons a p')
      with pq have "cs = p' @ sub @ q" by simp
      then have "contains sub cs" using Cons.IH by blast
      then show ?thesis by simp
    qed
  qed
qed

lemma index_of_less: "x \<in> set xs \<Longrightarrow> index_of x xs < length xs"
  by (induction xs) auto

lemma index_of_append: "x \<in> set xs \<Longrightarrow> index_of x (xs @ ys) = index_of x xs"
  by (induction xs) auto

lemma index_of_append_new: "x \<notin> set xs \<Longrightarrow> index_of x (xs @ [x]) = length xs"
  by (induction xs) auto

lemma index_of_eq: "x \<in> set xs \<Longrightarrow> index_of x xs = index_of y xs \<Longrightarrow> x = y"
  by (induction xs) (auto split: if_splits)

lemma length_set_cell:
  "length (set_cell cols n v r) = (if n \<in> set cols then length r else Suc (length r))"
  by (simp add: set_cell_def)

lemma get_set_same:
  assumes "length r = length cols"
  shows "get_cell (if n \<in> set cols then cols else cols @ [n]) n (set_cell cols n v r) = v"
proof (cases "n \<in> set cols")
  case True
  then have "index_of n cols < length r" using assms by (simp add: index_of_less)
  then show ?thesis using True by (simp add: get_cell_def set_cell_def)
next
  case False
  then have "index_of n (cols @ [n]) = length r" using assms by (simp add: index_of_append_new)
  then show ?thesis using False by (simp add: get_cell_def set_cell_def)
qed

lemma get_set_other:
  assumes "m \<in> set cols" "m \<noteq> n" "length r = length cols"
  shows "get_cell (if n \<in> set cols then cols else cols @ [n]) m (set_cell cols n v r)
         = get_cell cols m r"
proof (cases "n \<in> set cols")
  case True
  have "index_of n cols \<noteq> index_of m cols"
    using index_of_eq[OF assms(1), of n] assms(2) by auto
  then show ?thesis using True by (simp add: get_cell_def set_cell_def)
next
  case False
  have "index_of m (cols @ [n]) = index_of m cols" using assms by (simp add: index_of_append)
  moreover have "index_of m cols < length r" using assms by (simp add: index_of_less)
  ultimately show ?thesis using False
    by (simp add: get_cell_def set_cell_def nth_append)
qed

lemma columns_assign:
  "columns (assign n f df) = (if n \<in> set (columns df) then columns df else columns df @ [n])"
  by (simp add: assign_def)

lemma rows_assign:
  "rows (assign n f df) = map (\<lambda>r. set_cell (columns df) n (f r) r) (rows df)"
  by (simp add: assign_def)

lemma wf_assign: "wf_frame df \<Longrightarrow> wf_frame (assign n f df)"
  by (auto simp: wf_frame_def assign_def list_all_iff length_set_cell)

lemma distinct_columns_assign: "distinct (columns df) \<Longrightarrow> distinct (columns (assign n f df))"
  by (simp add: assign_def)

lemma mem_columns_assign: "m \<in> set (columns df) \<Longrightarrow> m \<in> set (columns (assign n f df))"
  by (simp add: assign_def)

lemma set_drop_duplicates: "set (drop_duplicates xs) = set xs"
  by (induction xs rule: drop_duplicates.induct) auto

lemma distinct_drop_duplicates: "distinct (drop_duplicates xs)"
  by (induction xs rule: drop_duplicates.induct) (auto simp: set_drop_duplicates)


lemma wf_frameD: "wf_frame df \<Longrightarrow> r \<in> set (rows df) \<Longrightarrow> length r = length (columns df)"
  by (simp add: wf_frame_def list_all_iff)

lemma column_assign_same:
  assumes "wf_frame df"
  shows "column_values n (assign n f df) = map f (rows df)"
  using wf_frameD[OF assms]
  by (simp add: column_values_def assign_def get_set_same)

lemma column_assign_other:
  assumes "wf_frame df" "m \<in> set (columns df)" "m \<noteq> n"
  shows "column_values m (assign n f df) = column_values m df"
  using wf_frameD[OF assms(1)] assms(2,3)
  by (simp add: column_values_def assign_def get_set_other)

lemma wf_standardize_columns: "wf_frame df \<Longrightarrow> wf_frame (standardize_columns lower df)"
  by (simp add: wf_frame_def standardize_columns_def)

lemma wf_handle_missing_codes: "wf_frame df \<Longrightarrow> wf_frame (handle_missing_codes df)"
  by (simp add: handle_missing_codes_def wf_assign)

lemma wf_remove_duplicates: "wf_frame df \<Longrightarrow> wf_frame (remove_duplicates df)"
  by (simp add: wf_frame_def remove_duplicates_def list_all_iff set_drop_duplicates)

lemma wf_validate_years: "wf_frame df \<Longrightarrow> wf_frame (validate_years parse df)"
proof -
  assume a: "wf_frame df"
  have "wf_frame (assign n f df)" for n f using a by (rule wf_assign)
  then show ?thesis using a
    by (auto simp: validate_years_def Let_def wf_frame_def list_all_iff)
qed

lemma wf_add_metadata: "wf_frame df \<Longrightarrow> wf_frame (add_metadata key today df)"
  by (simp add: add_metadata_def wf_assign)

lemma wf_add_entity_type: "wf_frame df \<Longrightarrow> wf_frame (add_entity_type fmt df)"
  by (simp add: add_entity_type_def wf_assign)

lemma columns_handle_missing_codes: "columns (handle_missing_codes df) = columns df"
  by (simp add: handle_missing_codes_def assign_def)

lemma columns_remove_duplicates: "columns (remove_duplicates df) = columns df"
  by (simp add: remove_duplicates_def)

lemma columns_validate_years: "columns (validate_years parse df) = columns df"
  by (simp add: validate_years_def Let_def assign_def)

lemma mem_columns_add_metadata:
  "m \<in> set (columns df) \<Longrightarrow> m \<in> set (columns (add_metadata key today df))"
  by (simp add: add_metadata_def mem_columns_assign)

lemma mem_columns_add_entity_type:
  "m \<in> set (columns df) \<Longrightarrow> m \<in> set (columns (add_entity_type fmt df))"
  by (simp add: add_entity_type_def mem_columns_assign)

lemma columns_add_metadata_cases:
  "m \<in> set (columns (add_metadata key today df)) \<Longrightarrow>
   m \<in> set (columns df) \<or> m \<in> {''data_source'', ''data_quality_flag'', ''last_updated''}"
  by (auto simp: add_metadata_def assign_def split: if_splits)

lemma columns_add_entity_type_cases:
  "m \<in> set (columns (add_entity_type fmt df)) \<Longrightarrow> m \<in> set (columns df) \<or> m = ''entity_type''"
  by (auto simp: add_entity_type_def assign_def split: if_splits)

lemma add_entity_type_row:
  assumes "wf_frame df" "''entity'' \<in> set (columns df)"
    and "r \<in> set (rows (add_entity_type fmt df))"
  shows "get_cell (columns (add_entity_type fmt df)) ''entity_type'' r
         = Str (classify fmt (get_cell (columns (add_entity_type fmt df)) ''entity'' r))"
proof -
  let ?f = "\<lambda>r. Str (classify fmt (get_cell (columns df) ''entity'' r))"
  have eq: "add_entity_type fmt df = assign ''entity_type'' ?f df"
    using assms(2) by (simp add: add_entity_type_def)
  from assms(3) obtain r0 where r0: "r0 \<in> set (rows df)"
    and r: "r = set_cell (columns df) ''entity_type'' (?f r0) r0"
    by (auto simp: eq rows_assign)
  have len: "length r0 = length (columns df)" using wf_frameD[OF assms(1) r0] .
  have "get_cell (columns (assign ''entity_type'' ?f df)) ''entity_type'' r = ?f r0"
    unfolding columns_assign r by (rule get_set_same[OF len])
  moreover have "get_cell (columns (assign ''entity_type'' ?f df)) ''entity'' r
                 = get_cell (columns df) ''entity'' r0"
    unfolding columns_assign r by (rule get_set_other[OF assms(2) _ len]) simp
  ultimately show ?thesis by (simp add: eq)
qed

lemma clean_dataset_Inr:
  assumes "clean_dataset lower parse fmt today key df = Inr out"
  shows "distinct (map (normalize_column lower) (columns df))"
    and "out = add_entity_type fmt (add_metadata key today (validate_years parse
               (remove_duplicates (handle_missing_codes (standardize_columns lower df)))))"
  using assms by (auto simp: clean_dataset_def Let_def standardize_columns_def split: if_splits)


subsection \<open>Replacement and stripping\<close>

lemma set_replace_subset: "set (replace old new s) \<subseteq> set s \<union> set new"
proof (induction old new s rule: replace.induct)
  case (1 old new)
  then show ?case by auto
next
  case (2 old new c cs)
  show ?case
  proof (cases "old = []")
    case True
    then show ?thesis using "2.IH"(1) by auto
  next
    case False
    note ne = this
    show ?thesis
    proof (cases "startswith (c # cs) old")
      case True
      have "set (drop (length old - 1) cs) \<subseteq> set cs" by (rule set_drop_subset)
      moreover have "set (replace old new (drop (length old - 1) cs))
                     \<subseteq> set (drop (length old - 1) cs) \<union> set new"
        using "2.IH"(2)[OF ne True] .
      ultimately have "set (replace old new (drop (length old - 1) cs)) \<subseteq> set cs \<union> set new"
        by blast
      moreover have "replace old new (c # cs) = new @ replace old new (drop (length old - 1) cs)"
        using ne True by simp
      ultimately show ?thesis by auto
    next
      case False
      have "replace old new (c # cs) = c # replace old new cs" using ne False by simp
      then show ?thesis using "2.IH"(3)[OF ne False] by auto
    qed
  qed
qed

lemma replace_char_gone: "c \<notin> set new \<Longrightarrow> c \<notin> set (replace [c] new s)"
proof (induction s)
  case Nil
  then show ?case by simp
next
  case (Cons a s)
  have "startswith (a # s) [c] = (a = c)" by simp
  then have "replace [c] new (a # s) = (if a = c then new @ replace [c] new s else a # replace [c] new s)"
    by simp
  then show ?case using Cons by auto
qed

lemma set_strip_subset: "set (strip chars s) \<subseteq> set s"
proof -
  let ?P = "\<lambda>c. c \<in> set chars"
  have "set (dropWhile ?P (rev (dropWhile ?P s))) \<subseteq> set (rev (dropWhile ?P s))"
    by (meson set_dropWhileD subsetI)
  moreover have "set (dropWhile ?P s) \<subseteq> set s" by (meson set_dropWhileD subsetI)
  ultimately show ?thesis by (auto simp: strip_def)
qed

lemma last_dropWhile_keep: "dropWhile P xs \<noteq> [] \<Longrightarrow> last (dropWhile P xs) = last xs"
  by (induction xs) (auto split: if_splits)

lemma strip_ends:
  "strip chars s = [] \<or> (hd (strip chars s) \<notin> set chars \<and> last (strip chars s) \<notin> set chars)"
proof (cases "strip chars s = []")
  case True
  then show ?thesis by simp
next
  case False
  define P where "P = (\<lambda>c. c \<in> set chars)"
  define u where "u = dropWhile P s"
  define v where "v = dropWhile P (rev u)"
  have st: "strip chars s = rev v" by (simp add: strip_def v_def u_def P_def)
  have v: "v \<noteq> []" using False st by simp
  then have u: "u \<noteq> []" by (auto simp: v_def)
  have hv: "\<not> P (hd v)" using v unfolding v_def by (rule hd_dropWhile)
  have hu: "\<not> P (hd u)" using u unfolding u_def by (rule hd_dropWhile)
  have "last v = last (rev u)" using v unfolding v_def by (rule last_dropWhile_keep)
  then have lv: "last v = hd u" using u by (simp add: last_rev)
  have "hd (rev v) = last v" using v by (simp add: hd_rev)
  moreover have "last (rev v) = hd v" using v by (simp add: last_rev)
  ultimately show ?thesis using hv hu lv st by (simp add: P_def)
qed

lemma strip_is_substring: "\<exists>p q. s = p @ strip chars s @ q"
proof -
  define P where "P = (\<lambda>c. c \<in> set chars)"
  define u where "u = dropWhile P s"
  define w where "w = rev u"
  have st: "strip chars s = rev (dropWhile P w)" by (simp add: strip_def w_def u_def P_def)
  have "rev (dropWhile P w) @ rev (takeWhile P w) = rev (takeWhile P w @ dropWhile P w)"
    by (simp only: rev_append)
  also have "\<dots> = rev w" by (simp only: takeWhile_dropWhile_id)
  also have "\<dots> = u" by (simp add: w_def)
  finally have "strip chars s @ rev (takeWhile P w) = u" by (simp only: st)
  moreover have "takeWhile P s @ u = s" by (simp add: u_def)
  ultimately have "s = takeWhile P s @ strip chars s @ rev (takeWhile P w)" by simp
  then show ?thesis by blast
qed

lemma contains_strip: "contains sub (strip chars s) \<Longrightarrow> contains sub s"
proof -
  assume "contains sub (strip chars s)"
  then obtain p q where pq: "strip chars s = p @ sub @ q" by (auto simp: contains_iff)
  obtain p' q' where "s = p' @ strip chars s @ q'" using strip_is_substring by blast
  then have "s = (p' @ p) @ sub @ (q @ q')" using pq by simp
  then show ?thesis unfolding contains_iff by blast
qed

lemma merge_keeps_head:
  "\<not> startswith t ''_'' \<Longrightarrow> \<not> startswith (replace ''__'' ''_'' t) ''_''"
proof (cases t)
  case Nil
  then show ?thesis by simp
next
  case (Cons c cs)
  assume "\<not> startswith t ''_''"
  then have "c \<noteq> CHR ''_''" using Cons by simp
  then have "replace ''__'' ''_'' (c # cs) = c # replace ''__'' ''_'' cs" by simp
  then show ?thesis using Cons \<open>c \<noteq> CHR ''_''\<close> by simp
qed

lemma merge_pairs_single:
  "\<not> contains ''___'' t \<Longrightarrow> \<not> contains ''__'' (replace ''__'' ''_'' t)"
proof (induction t rule: length_induct)
  case (1 t)
  show ?case
  proof (cases t)
    case Nil
    then show ?thesis by simp
  next
    case (Cons c cs)
    show ?thesis
    proof (cases "startswith (c # cs) ''__''")
      case True
      then obtain cs' where cs: "c = CHR ''_''" "cs = CHR ''_'' # cs'"
        by (cases cs) auto
      have n3: "\<not> startswith cs' ''_''" and nc: "\<not> contains ''___'' cs'"
        using "1.prems" Cons cs by auto
      have "length cs' < length t" using Cons cs by simp
      then have ih: "\<not> contains ''__'' (replace ''__'' ''_'' cs')"
        using "1.IH" nc by blast
      have h: "\<not> startswith (replace ''__'' ''_'' cs') ''_''"
        using merge_keeps_head[OF n3] .
      have "replace ''__'' ''_'' t = CHR ''_'' # replace ''__'' ''_'' cs'"
        using Cons cs by simp
      then show ?thesis using ih h by simp
    next
      case False
      have nc: "\<not> contains ''___'' cs" using "1.prems" Cons by simp
      have "length cs < length t" using Cons by simp
      then have ih: "\<not> contains ''__'' (replace ''__'' ''_'' cs)"
        using "1.IH" nc by blast
      have r: "replace ''__'' ''_'' t = c # replace ''__'' ''_'' cs"
        using Cons False by auto
      have "\<not> (c = CHR ''_'' \<and> startswith (replace ''__'' ''_'' cs) ''_'')"
      proof
        assume a: "c = CHR ''_'' \<and> startswith (replace ''__'' ''_'' cs) ''_''"
        then have "\<not> startswith cs ''_''" using False by simp
        then have "\<not> startswith (replace ''__'' ''_'' cs) ''_''" by (rule merge_keeps_head)
        then show False using a by simp
      qed
      then show ?thesis using ih r by simp
    qed
  qed
qed

lemma replace_keeps:
  assumes "\<And>c. c \<in> set s \<Longrightarrow> P c" "\<And>c. c \<in> set new \<Longrightarrow> P c" "c \<in> set (replace old new s)"
  shows "P c"
  using set_replace_subset[of old new s] assms by blast

lemma replace_absent: "c \<notin> set s \<Longrightarrow> c \<notin> set new \<Longrightarrow> c \<notin> set (replace old new s)"
  using set_replace_subset[of old new s] by blast

lemma rewrite_separators_chars:
  "CHR '' '' \<notin> set (rewrite_separators lower col)" "CHR ''-'' \<notin> set (rewrite_separators lower col)"
  "CHR ''('' \<notin> set (rewrite_separators lower col)" "CHR '')'' \<notin> set (rewrite_separators lower col)"
  unfolding rewrite_separators_def
  by (intro replace_absent replace_char_gone; simp)+

lemma replace_char_delete: "replace [c] [] s = filter (\<lambda>x. x \<noteq> c) s"
  by (induction s) auto

lemma replace_char_map: "replace [c] [d] s = map (\<lambda>x. if x = c then d else x) s"
  by (induction s) auto

lemma rewrite_separators_exact:
  "rewrite_separators lower col =
     map separator_to_underscore
       (replace '' - '' ''_''
         (filter (\<lambda>c. c \<noteq> CHR ''('' \<and> c \<noteq> CHR '')'')
           (replace subscript_two ''2'' (lower col))))"
proof -
  have m: "(\<lambda>x. if x = CHR ''-'' then CHR ''_'' else x) \<circ> (\<lambda>x. if x = CHR '' '' then CHR ''_'' else x)
           = separator_to_underscore"
    by (auto simp: fun_eq_iff separator_to_underscore_def)
  have f: "(\<lambda>x. x \<noteq> CHR '')'' \<and> x \<noteq> CHR ''('') = (\<lambda>c. c \<noteq> CHR ''('' \<and> c \<noteq> CHR '')'')"
    by auto
  show ?thesis
    unfolding rewrite_separators_def replace_char_delete replace_char_map
    by (simp only: map_map filter_filter m f)
qed

lemma startswith_split:
  assumes "startswith (c # cs) old" "old \<noteq> []"
  shows "c # cs = old @ drop (length old - 1) cs"
proof -
  obtain q where q: "c # cs = old @ q" using assms(1) by (auto simp: startswith_iff)
  obtain a as where a: "old = a # as" using assms(2) by (cases old) auto
  then have "cs = as @ q" using q by simp
  then show ?thesis using q a by simp
qed

lemma filter_replace:
  assumes "\<And>c. c \<in> set old \<Longrightarrow> \<not> P c" "\<And>c. c \<in> set new \<Longrightarrow> \<not> P c"
  shows "filter P (replace old new s) = filter P s"
proof (induction s rule: length_induct)
  case (1 s)
  have fo: "filter P old = []" and fn: "filter P new = []"
    using assms by (auto simp: filter_empty_conv)
  show ?case
  proof (cases s)
    case Nil
    then show ?thesis using fn by simp
  next
    case (Cons c cs)
    show ?thesis
    proof (cases "old = []")
      case True
      have "filter P (replace old new cs) = filter P cs" using 1 Cons by simp
      then show ?thesis using Cons True fn by simp
    next
      case ne: False
      show ?thesis
      proof (cases "startswith (c # cs) old")
        case True
        let ?rest = "drop (length old - 1) cs"
        have s: "c # cs = old @ ?rest" using True ne by (rule startswith_split)
        have "length ?rest < length s" using Cons by simp
        then have ih: "filter P (replace old new ?rest) = filter P ?rest" using 1 by blast
        have "filter P (replace old new s) = filter P (new @ replace old new ?rest)"
          using Cons True ne by simp
        also have "\<dots> = filter P ?rest" using fn ih by simp
        also have "\<dots> = filter P (old @ ?rest)" using fo by simp
        finally show ?thesis using s Cons by simp
      next
        case False
        have "filter P (replace old new cs) = filter P cs" using 1 Cons by simp
        then show ?thesis using Cons False ne by simp
      qed
    qed
  qed
qed

lemma filter_dropWhile:
  assumes "\<And>c. Q c \<Longrightarrow> \<not> P c"
  shows "filter P (dropWhile Q s) = filter P s"
  using assms by (induction s) auto

lemma filter_strip:
  assumes "\<And>c. c \<in> set chars \<Longrightarrow> \<not> P c"
  shows "filter P (strip chars s) = filter P s"
proof -
  let ?Q = "\<lambda>c. c \<in> set chars"
  have "filter P (strip chars s) = rev (filter P (dropWhile ?Q (rev (dropWhile ?Q s))))"
    by (simp add: strip_def rev_filter)
  also have "\<dots> = rev (filter P (rev (dropWhile ?Q s)))"
    using assms by (simp add: filter_dropWhile)
  also have "\<dots> = filter P (dropWhile ?Q s)" by (simp add: rev_filter)
  also have "\<dots> = filter P s" using assms by (simp add: filter_dropWhile)
  finally show ?thesis .
qed

lemma replace_pairs_collapse:
  "\<not> contains ''___'' t \<Longrightarrow> replace ''__'' ''_'' t = collapse_underscores t"
proof (induction t rule: length_induct)
  case (1 t)
  show ?case
  proof (cases t)
    case Nil
    then show ?thesis by simp
  next
    case (Cons c cs)
    show ?thesis
    proof (cases "startswith (c # cs) ''__''")
      case True
      then obtain cs' where cs: "c = CHR ''_''" "cs = CHR ''_'' # cs'"
        by (cases cs) auto
      have n3: "\<not> startswith cs' ''_''" and nc: "\<not> contains ''___'' cs'"
        using "1.prems" Cons cs by auto
      have "length cs' < length t" using Cons cs by simp
      then have ih: "replace ''__'' ''_'' cs' = collapse_underscores cs'"
        using "1.IH" nc by blast
      have r: "replace ''__'' ''_'' t = CHR ''_'' # replace ''__'' ''_'' cs'"
        using Cons cs by simp
      have "collapse_underscores t = CHR ''_'' # collapse_underscores cs'"
      proof (cases cs')
        case Nil
        then show ?thesis using Cons cs by simp
      next
        case (Cons d ds)
        then have "d \<noteq> CHR ''_''" using n3 by simp
        then show ?thesis using Cons \<open>t = c # cs\<close> cs by simp
      qed
      then show ?thesis using r ih by simp
    next
      case False
      have nc: "\<not> contains ''___'' cs" using "1.prems" Cons by simp
      have "length cs < length t" using Cons by simp
      then have ih: "replace ''__'' ''_'' cs = collapse_underscores cs"
        using "1.IH" nc by blast
      have r: "replace ''__'' ''_'' t = c # replace ''__'' ''_'' cs"
        using Cons False by auto
      have "collapse_underscores t = c # collapse_underscores cs"
      proof (cases cs)
        case Nil
        then show ?thesis using Cons by simp
      next
        case (Cons d ds)
        then have "\<not> (c = CHR ''_'' \<and> d = CHR ''_'')" using False by simp
        then show ?thesis using Cons \<open>t = c # cs\<close> by simp
      qed
      then show ?thesis using r ih by simp
    qed
  qed
qed

lemma collapse_underscores_head: "\<exists>r. collapse_underscores (d # cs) = d # r"
proof (induction cs arbitrary: d)
  case Nil
  then show ?case by simp
next
  case (Cons e es)
  then show ?case by (cases "d = CHR ''_'' \<and> e = CHR ''_''") auto
qed

lemma collapse_underscores_single: "\<not> contains ''__'' (collapse_underscores t)"
proof (induction t rule: collapse_underscores.induct)
  case (1 c d cs)
  obtain r where r: "collapse_underscores (d # cs) = d # r"
    using collapse_underscores_head by blast
  show ?case
  proof (cases "c = CHR ''_'' \<and> d = CHR ''_''")
    case True
    then show ?thesis using 1 by simp
  next
    case False
    then have "\<not> contains ''__'' (d # r)" using 1 r by simp
    then show ?thesis using False r by auto
  qed
qed simp_all

subsection \<open>The id column\<close>

lemma insert_id_column:
  assumes "''id'' \<notin> set (columns df)"
  shows "\<exists>t. insert_id df = Inr t \<and> length (rows t) = length (rows df)
           \<and> column_values ''id'' t = map (\<lambda>i. Num (Fin (of_int i))) [1 ..int (length (rows df))]"
proof -
  let ?ids = "[1 ..int (length (rows df))]"
  let ?t = "\<lparr>columns = ''id'' # columns df,
             rows = map (\<lambda>(i, r). Num (Fin (of_int i)) # r) (zip ?ids (rows df))\<rparr>"
  have len: "length ?ids = length (rows df)" by simp
  have "column_values ''id'' ?t = map (\<lambda>p. Num (Fin (of_int (fst p)))) (zip ?ids (rows df))"
    by (simp add: column_values_def get_cell_def case_prod_beta)
  also have "\<dots> = map (\<lambda>i. Num (Fin (of_int i))) (map fst (zip ?ids (rows df)))"
    by (simp only: map_map comp_def)
  also have "\<dots> = map (\<lambda>i. Num (Fin (of_int i))) ?ids"
    using len by (simp only: map_fst_zip)
  finally have "column_values ''id'' ?t = map (\<lambda>i. Num (Fin (of_int i))) ?ids" .
  moreover have "insert_id df = Inr ?t" using assms by (simp add: insert_id_def)
  moreover have "length (rows ?t) = length (rows df)" by simp
  ultimately show ?thesis by blast
qed

lemma distinct_ids: "distinct (map (\<lambda>i. Num (Fin (of_int i))) [1 ..int n])"
  by (simp add: distinct_map inj_on_def)

subsection \<open>The stages of the cleaning\<close>

lemma wf_deduplicated: "wf_frame df \<Longrightarrow> wf_frame (deduplicated lower df)"
  by (simp add: deduplicated_def wf_remove_duplicates wf_handle_missing_codes
      wf_standardize_columns)

lemma columns_deduplicated: "columns (deduplicated lower df) = map (normalize_column lower) (columns df)"
  by (simp add: deduplicated_def columns_remove_duplicates columns_handle_missing_codes
      standardize_columns_def)

lemma clean_dataset_deduplicated:
  assumes "clean_dataset lower parse fmt today key df = Inr out"
  shows "out = add_entity_type fmt (add_metadata key today
                 (validate_years parse (deduplicated lower df)))"
  using clean_dataset_Inr(2)[OF assms] by (simp add: deduplicated_def)

lemma rows_validate_years:
  assumes "wf_frame df" "''year'' \<in> set (columns df)"
  shows "rows (validate_years parse df) =
           map (\<lambda>r. set_cell (columns df) ''year''
                      (Num (to_numeric parse (get_cell (columns df) ''year'' r))) r)
             (filter (\<lambda>r. year_in_range (Num (to_numeric parse (get_cell (columns df) ''year'' r))))
                (rows df))"
proof -
  let ?g = "\<lambda>r. Num (to_numeric parse (get_cell (columns df) ''year'' r))"
  let ?h = "\<lambda>r. set_cell (columns df) ''year'' (?g r) r"
  have cols: "columns (assign ''year'' ?g df) = columns df"
    using assms(2) by (simp add: columns_assign)
  have "rows (validate_years parse df) =
          filter (\<lambda>r. year_in_range (get_cell (columns df) ''year'' r)) (map ?h (rows df))"
    using assms(2) by (simp add: validate_years_def Let_def cols rows_assign)
  also have "\<dots> = map ?h (filter ((\<lambda>r. year_in_range (get_cell (columns df) ''year'' r)) \<circ> ?h)
                          (rows df))"
    by (rule filter_map)
  also have "filter ((\<lambda>r. year_in_range (get_cell (columns df) ''year'' r)) \<circ> ?h) (rows df)
             = filter (\<lambda>r. year_in_range (?g r)) (rows df)"
  proof (rule filter_cong[OF refl])
    fix r assume "r \<in> set (rows df)"
    then have len: "length r = length (columns df)" using wf_frameD[OF assms(1)] by blast
    have "get_cell (columns df) ''year'' (?h r) = ?g r"
      using get_set_same[OF len, of "''year''" "?g r"] assms(2) by simp
    then show "((\<lambda>r. year_in_range (get_cell (columns df) ''year'' r)) \<circ> ?h) r
               = year_in_range (?g r)" by simp
  qed
  finally show ?thesis .
qed

lemma year_column_validate_years:
  assumes "wf_frame df" "''year'' \<in> set (columns df)"
  shows "column_values ''year'' (validate_years parse df) =
           filter year_in_range
             (map (\<lambda>c. Num (to_numeric parse c)) (column_values ''year'' df))"
proof -
  let ?g = "\<lambda>r. Num (to_numeric parse (get_cell (columns df) ''year'' r))"
  let ?h = "\<lambda>r. set_cell (columns df) ''year'' (?g r) r"
  let ?kept = "filter (\<lambda>r. year_in_range (?g r)) (rows df)"
  have "column_values ''year'' (validate_years parse df)
        = map (get_cell (columns df) ''year'') (map ?h ?kept)"
    by (simp only: column_values_def columns_validate_years rows_validate_years[OF assms])
  also have "\<dots> = map ?g ?kept"
  proof -
    have "get_cell (columns df) ''year'' (?h r) = ?g r" if "r \<in> set ?kept" for r
    proof -
      have len: "length r = length (columns df)" using that wf_frameD[OF assms(1)] by simp
      show ?thesis using get_set_same[OF len, of "''year''" "?g r"] assms(2) by simp
    qed
    then show ?thesis by simp
  qed
  also have "\<dots> = filter year_in_range (map ?g (rows df))"
    by (simp add: filter_map comp_def)
  also have "map ?g (rows df) = map (\<lambda>c. Num (to_numeric parse c)) (column_values ''year'' df)"
    by (simp add: column_values_def)
  finally show ?thesis .
qed

lemma other_column_validate_years:
  assumes "wf_frame df" "''year'' \<in> set (columns df)" "m \<in> set (columns df)" "m \<noteq> ''year''"
  shows "column_values m (validate_years parse df) =
           map (get_cell (columns df) m)
             (filter (\<lambda>r. year_in_range (Num (to_numeric parse (get_cell (columns df) ''year'' r))))
                (rows df))"
proof -
  let ?g = "\<lambda>r. Num (to_numeric parse (get_cell (columns df) ''year'' r))"
  let ?h = "\<lambda>r. set_cell (columns df) ''year'' (?g r) r"
  let ?kept = "filter (\<lambda>r. year_in_range (?g r)) (rows df)"
  have "column_values m (validate_years parse df)
        = map (get_cell (columns df) m) (map ?h ?kept)"
    by (simp only: column_values_def columns_validate_years rows_validate_years[OF assms(1,2)])
  also have "\<dots> = map (get_cell (columns df) m) ?kept"
  proof -
    have "get_cell (columns df) m (?h r) = get_cell (columns df) m r" if "r \<in> set ?kept" for r
    proof -
      have len: "length r = length (columns df)" using that wf_frameD[OF assms(1)] by simp
      show ?thesis using get_set_other[OF assms(3,4) len, of "?g r"] assms(2) by simp
    qed
    then show ?thesis by simp
  qed
  finally show ?thesis .
qed

lemma column_add_metadata:
  assumes "wf_frame df" "m \<in> set (columns df)"
    and "m \<notin> {''data_source'', ''data_quality_flag'', ''last_updated''}"
  shows "column_values m (add_metadata key today df) = column_values m df"
proof -
  let ?a = "assign ''data_source'' (\<lambda>r. Str key) df"
  let ?b = "assign ''data_quality_flag'' (\<lambda>r. Str ''clean'') ?a"
  have "column_values m (assign ''last_updated'' (\<lambda>r. Day today) ?b) = column_values m ?b"
    using assms by (intro column_assign_other wf_assign mem_columns_assign) auto
  also have "\<dots> = column_values m ?a"
    using assms by (intro column_assign_other wf_assign mem_columns_assign) auto
  also have "\<dots> = column_values m df"
    using assms by (intro column_assign_other) auto
  finally show ?thesis by (simp add: add_metadata_def)
qed

lemma column_add_entity_type:
  assumes "wf_frame df" "m \<in> set (columns df)" "m \<noteq> ''entity_type''"
  shows "column_values m (add_entity_type fmt df) = column_values m df"
  using assms by (simp add: add_entity_type_def column_assign_other)

lemma year_in_rangeD:
  "year_in_range c \<Longrightarrow> \<exists>y. c = Num (Fin y) \<and> 1750 \<le> y \<and> y \<le> 2025"
proof -
  assume a: "year_in_range c"
  then obtain x where c: "c = Num x" by (cases c) (auto simp: year_in_range_def)
  with a show ?thesis by (cases x) (auto simp: year_in_range_def)
qed

lemma year_column_kept:
  assumes "''year'' \<in> set (columns (add_entity_type fmt (add_metadata key today df)))"
  shows "''year'' \<in> set (columns df)"
  using columns_add_entity_type_cases[OF assms] columns_add_metadata_cases[of "''year''" key today df]
  by auto

subsection \<open>Distinct rows\<close>

lemma clean_dataset_success:
  assumes "distinct (map (normalize_column lower) (columns df))"
  shows "clean_dataset lower parse fmt today key df =
           Inr (add_entity_type fmt (add_metadata key today
                  (validate_years parse (deduplicated lower df))))"
  using assms by (simp add: clean_dataset_def deduplicated_def standardize_columns_def Let_def)

lemma parse_decimal_2020: "parse_decimal ''2020'' = Fin 2020" "parse_decimal ''2020.0'' = Fin 2020"
  by (simp_all add: parse_decimal_def is_digit_def digits_value_def Let_def)


lemma france_country: "classify fmt (Str ''France'') = ''country''"
  by (simp add: classify_def py_str_def aggregates_def)

lemma text_year_deduplicated:
  "deduplicated ascii_lower \<lparr>columns = [''Entity'', ''Year''],
      rows = [[Str ''France'', Str ''2020''], [Str ''France'', Str ''2020.0'']]\<rparr>
   = \<lparr>columns = [''entity'', ''year''],
      rows = [[Str ''France'', Str ''2020''], [Str ''France'', Str ''2020.0'']]\<rparr>"
  by code_simp

lemma text_year_validated:
  "validate_years parse_decimal \<lparr>columns = [''entity'', ''year''],
      rows = [[Str ''France'', Str ''2020''], [Str ''France'', Str ''2020.0'']]\<rparr>
   = \<lparr>columns = [''entity'', ''year''],
      rows = [[Str ''France'', Num (Fin 2020)], [Str ''France'', Num (Fin 2020)]]\<rparr>"
  by (simp add: validate_years_def assign_def set_cell_def get_cell_def year_in_range_def
      parse_decimal_2020)



lemma text_year_metadata:
  "add_metadata ''co2_emissions'' (Date 2025 11 19) \<lparr>columns = [''entity'', ''year''],
      rows = [[Str ''France'', Num (Fin 2020)], [Str ''France'', Num (Fin 2020)]]\<rparr>
   = \<lparr>columns = [''entity'', ''year'', ''data_source'', ''data_quality_flag'', ''last_updated''],
      rows = [[Str ''France'', Num (Fin 2020), Str ''co2_emissions'', Str ''clean'',
               Day (Date 2025 11 19)],
              [Str ''France'', Num (Fin 2020), Str ''co2_emissions'', Str ''clean'',
               Day (Date 2025 11 19)]]\<rparr>"
  by (simp add: add_metadata_def assign_def set_cell_def)

lemma text_year_entity_type:
  "add_entity_type fmt
     \<lparr>columns = [''entity'', ''year'', ''data_source'', ''data_quality_flag'', ''last_updated''],
      rows = [[Str ''France'', Num (Fin 2020), Str ''co2_emissions'', Str ''clean'',
               Day (Date 2025 11 19)],
              [Str ''France'', Num (Fin 2020), Str ''co2_emissions'', Str ''clean'',
               Day (Date 2025 11 19)]]\<rparr>
   = \<lparr>columns = [''entity'', ''year'', ''data_source'', ''data_quality_flag'',
                  ''last_updated'', ''entity_type''],
      rows = [[Str ''France'', Num (Fin 2020), Str ''co2_emissions'', Str ''clean'',
               Day (Date 2025 11 19), Str ''country''],
              [Str ''France'', Num (Fin 2020), Str ''co2_emissions'', Str ''clean'',
               Day (Date 2025 11 19), Str ''country'']]\<rparr>"
  by (simp add: add_entity_type_def assign_def set_cell_def get_cell_def france_country)

lemma distinct_rows_assign_new:
  assumes "n \<notin> set (columns df)" "distinct (rows df)"
  shows "distinct (rows (assign n f df))"
proof -
  have "rows (assign n f df) = map (\<lambda>r. r @ [f r]) (rows df)"
    using assms(1) by (simp add: rows_assign set_cell_def)
  moreover have "inj_on (\<lambda>r. r @ [f r]) (set (rows df))" by (simp add: inj_on_def)
  ultimately show ?thesis using assms(2) by (simp add: distinct_map)
qed

lemma distinct_rows_validate_years:
  assumes "wf_frame df" "distinct (rows df)"
    and "''year'' \<in> set (columns df) \<Longrightarrow>
         inj_on (to_numeric parse) (set (column_values ''year'' df))"
  shows "distinct (rows (validate_years parse df))"
proof (cases "''year'' \<in> set (columns df)")
  case False
  then show ?thesis using assms(2) by (simp add: validate_years_def)
next
  case True
  let ?i = "index_of ''year'' (columns df)"
  let ?h = "\<lambda>r. set_cell (columns df) ''year''
                  (Num (to_numeric parse (get_cell (columns df) ''year'' r))) r"
  let ?kept = "filter (\<lambda>r. year_in_range (Num (to_numeric parse
                         (get_cell (columns df) ''year'' r)))) (rows df)"
  have inj: "inj_on (to_numeric parse) (set (column_values ''year'' df))"
    using assms(3) True by simp
  have "inj_on ?h (set (rows df))"
  proof (rule inj_onI)
    fix r1 r2 assume r: "r1 \<in> set (rows df)" "r2 \<in> set (rows df)" and eq: "?h r1 = ?h r2"
    have cells: "r1 ! ?i \<in> set (column_values ''year'' df)"
      "r2 ! ?i \<in> set (column_values ''year'' df)"
      using r by (auto simp: column_values_def get_cell_def)
    have upd: "r1[?i := Num (to_numeric parse (r1 ! ?i))] = r2[?i := Num (to_numeric parse (r2 ! ?i))]"
      using eq True by (simp add: set_cell_def get_cell_def)
    have len1: "?i < length r1" using wf_frameD[OF assms(1) r(1)] True by (simp add: index_of_less)
    then have len2: "?i < length r2" using upd by (metis length_list_update)
    have "(r1[?i := Num (to_numeric parse (r1 ! ?i))]) ! ?i
          = (r2[?i := Num (to_numeric parse (r2 ! ?i))]) ! ?i" using upd by simp
    then have "to_numeric parse (r1 ! ?i) = to_numeric parse (r2 ! ?i)"
      using len1 len2 by simp
    then have same: "r1 ! ?i = r2 ! ?i" using inj cells by (simp add: inj_on_def)
    have "r1 = (r1[?i := Num (to_numeric parse (r1 ! ?i))])[?i := r1 ! ?i]" by simp
    also have "\<dots> = (r2[?i := Num (to_numeric parse (r2 ! ?i))])[?i := r2 ! ?i]"
      using upd same by simp
    also have "\<dots> = r2" by simp
    finally show "r1 = r2" .
  qed
  then have "inj_on ?h (set ?kept)" by (rule inj_on_subset) auto
  moreover have "distinct ?kept" using assms(2) by simp
  ultimately have "distinct (map ?h ?kept)" by (simp add: distinct_map)
  then show ?thesis by (simp only: rows_validate_years[OF assms(1) True])
qed

lemma distinct_rows_deduplicated: "distinct (rows (deduplicated lower df))"
  by (simp add: deduplicated_def remove_duplicates_def distinct_drop_duplicates)

lemma columns_add_metadata_fresh:
  assumes "set (columns df) \<inter> {''data_source'', ''data_quality_flag'', ''last_updated''} = {}"
  shows "columns (add_metadata key today df)
         = columns df @ [''data_source'', ''data_quality_flag'', ''last_updated'']"
  using assms by (simp add: add_metadata_def columns_assign)

lemma distinct_rows_add_metadata:
  assumes "set (columns df) \<inter> {''data_source'', ''data_quality_flag'', ''last_updated''} = {}"
    and "distinct (rows df)"
  shows "distinct (rows (add_metadata key today df))"
  unfolding add_metadata_def
  using assms by (intro distinct_rows_assign_new) (auto simp: columns_assign)

lemma distinct_rows_add_entity_type:
  assumes "''entity_type'' \<notin> set (columns df)" "distinct (rows df)"
  shows "distinct (rows (add_entity_type fmt df))"
  using assms by (simp add: add_entity_type_def distinct_rows_assign_new)

subsection \<open>Two runs on the same input\<close>

lemma length_rows_assign: "length (rows (assign n f df)) = length (rows df)"
  by (simp add: rows_assign)

lemma same_but_last_updatedI:
  assumes "columns a = columns b" "length (rows a) = length (rows b)"
    and "\<And>m. m \<in> set (columns a) \<Longrightarrow> m \<noteq> ''last_updated'' \<Longrightarrow>
           column_values m a = column_values m b"
  shows "same_but_last_updated a b"
  using assms by (auto simp: same_but_last_updated_def list_all_iff)

lemma same_but_last_updatedD:
  assumes "same_but_last_updated a b"
  shows "columns a = columns b" "length (rows a) = length (rows b)"
    and "\<And>m. m \<in> set (columns a) \<Longrightarrow> m \<noteq> ''last_updated'' \<Longrightarrow>
           column_values m a = column_values m b"
  using assms by (auto simp: same_but_last_updated_def list_all_iff)

lemma assign_last_updated_same:
  assumes "wf_frame df"
  shows "same_but_last_updated (assign ''last_updated'' f df) (assign ''last_updated'' g df)"
proof (rule same_but_last_updatedI)
  show "columns (assign ''last_updated'' f df) = columns (assign ''last_updated'' g df)"
    by (simp add: columns_assign)
  show "length (rows (assign ''last_updated'' f df)) = length (rows (assign ''last_updated'' g df))"
    by (simp add: length_rows_assign)
next
  fix m assume m: "m \<in> set (columns (assign ''last_updated'' f df))" "m \<noteq> ''last_updated''"
  then have "m \<in> set (columns df)" by (auto simp: columns_assign split: if_splits)
  then show "column_values m (assign ''last_updated'' f df)
             = column_values m (assign ''last_updated'' g df)"
    using assms m(2) by (simp add: column_assign_other)
qed

lemma add_entity_type_same:
  assumes "wf_frame a" "wf_frame b" "same_but_last_updated a b"
  shows "same_but_last_updated (add_entity_type fmt a) (add_entity_type fmt b)"
proof (cases "''entity'' \<in> set (columns a)")
  case False
  then show ?thesis using assms(3) same_but_last_updatedD(1)[OF assms(3)]
    by (simp add: add_entity_type_def)
next
  case True
  note cols = same_but_last_updatedD(1)[OF assms(3)]
  let ?ga = "\<lambda>r. Str (classify fmt (get_cell (columns a) ''entity'' r))"
  let ?gb = "\<lambda>r. Str (classify fmt (get_cell (columns b) ''entity'' r))"
  have ea: "add_entity_type fmt a = assign ''entity_type'' ?ga a"
    using True by (simp add: add_entity_type_def)
  have eb: "add_entity_type fmt b = assign ''entity_type'' ?gb b"
    using True cols by (simp add: add_entity_type_def)
  have ent: "column_values ''entity'' a = column_values ''entity'' b"
    using same_but_last_updatedD(3)[OF assms(3) True] by simp
  show ?thesis unfolding ea eb
  proof (rule same_but_last_updatedI)
    show "columns (assign ''entity_type'' ?ga a) = columns (assign ''entity_type'' ?gb b)"
      using cols by (simp add: columns_assign)
    show "length (rows (assign ''entity_type'' ?ga a)) = length (rows (assign ''entity_type'' ?gb b))"
      using same_but_last_updatedD(2)[OF assms(3)] by (simp add: length_rows_assign)
  next
    fix m assume m: "m \<in> set (columns (assign ''entity_type'' ?ga a))" "m \<noteq> ''last_updated''"
    show "column_values m (assign ''entity_type'' ?ga a)
          = column_values m (assign ''entity_type'' ?gb b)"
    proof (cases "m = ''entity_type''")
      case True
      have "column_values ''entity_type'' (assign ''entity_type'' ?ga a) = map ?ga (rows a)"
        using assms(1) by (rule column_assign_same)
      also have "\<dots> = map (\<lambda>c. Str (classify fmt c)) (column_values ''entity'' a)"
        by (simp add: column_values_def)
      finally have ca: "column_values ''entity_type'' (assign ''entity_type'' ?ga a)
            = map (\<lambda>c. Str (classify fmt c)) (column_values ''entity'' a)" .
      have "column_values ''entity_type'' (assign ''entity_type'' ?gb b) = map ?gb (rows b)"
        using assms(2) by (rule column_assign_same)
      also have "\<dots> = map (\<lambda>c. Str (classify fmt c)) (column_values ''entity'' b)"
        by (simp add: column_values_def)
      finally have "column_values ''entity_type'' (assign ''entity_type'' ?gb b)
            = map (\<lambda>c. Str (classify fmt c)) (column_values ''entity'' b)" .
      with ca have "column_values ''entity_type'' (assign ''entity_type'' ?ga a)
            = column_values ''entity_type'' (assign ''entity_type'' ?gb b)"
        using ent by simp
      then show ?thesis using True by simp
    next
      case False
      then have ma: "m \<in> set (columns a)" using m(1) by (auto simp: columns_assign split: if_splits)
      then have mb: "m \<in> set (columns b)" using cols by simp
      have "column_values m (assign ''entity_type'' ?ga a) = column_values m a"
        using assms(1) ma False by (rule column_assign_other)
      moreover have "column_values m (assign ''entity_type'' ?gb b) = column_values m b"
        using assms(2) mb False by (rule column_assign_other)
      ultimately show ?thesis using same_but_last_updatedD(3)[OF assms(3) ma m(2)] by simp
    qed
  qed
qed

lemma clean_dataset_rerun:
  assumes "wf_frame df"
  shows "(\<exists>e. clean_dataset lower parse fmt d1 key df = Inl e \<and> clean_dataset lower parse fmt d2 key df = Inl e)
       \<or> (\<exists>a b. clean_dataset lower parse fmt d1 key df = Inr a \<and> clean_dataset lower parse fmt d2 key df = Inr b
              \<and> same_but_last_updated a b)"
proof (cases "distinct (map (normalize_column lower) (columns df))")
  case False
  then show ?thesis by (simp add: clean_dataset_def standardize_columns_def)
next
  case True
  let ?X = "assign ''data_quality_flag'' (\<lambda>r. Str ''clean'')
              (assign ''data_source'' (\<lambda>r. Str key) (validate_years parse (deduplicated lower df)))"
  have wfX: "wf_frame ?X"
    by (intro wf_assign wf_validate_years wf_deduplicated assms)
  let ?Y1 = "assign ''last_updated'' (\<lambda>r. Day d1) ?X"
  let ?Y2 = "assign ''last_updated'' (\<lambda>r. Day d2) ?X"
  have "same_but_last_updated ?Y1 ?Y2" using wfX by (rule assign_last_updated_same)
  then have "same_but_last_updated (add_entity_type fmt ?Y1) (add_entity_type fmt ?Y2)"
    by (intro add_entity_type_same wf_assign wfX)
  moreover have "clean_dataset lower parse fmt d1 key df = Inr (add_entity_type fmt ?Y1)"
    "clean_dataset lower parse fmt d2 key df = Inr (add_entity_type fmt ?Y2)"
    by (simp_all add: clean_dataset_success[OF True] add_metadata_def)
  ultimately show ?thesis by blast
qed

subsection \<open>Query parameters\<close>

lemma when_given_filter:
  "when_given p (\<lambda>v. filter (P v)) qs = filter (\<lambda>r. asked p (\<lambda>v. P v r)) qs"
  by (cases p) (simp_all add: when_given_def asked_def)

lemma when_given_try_readable:
  assumes "readable to_int p"
  shows "when_given_try p (filter_year to_int cmp) qs =
           Inr (filter (\<lambda>r. asked p (\<lambda>v. case to_int v of None \<Rightarrow> False
                                                | Some n \<Rightarrow> cmp (year r) n)) qs)"
proof (cases p)
  case None
  then show ?thesis by (simp add: when_given_try_def asked_def)
next
  case (Some v)
  show ?thesis
  proof (cases "v = []")
    case True
    then show ?thesis using Some by (simp add: when_given_try_def asked_def)
  next
    case False
    then obtain n where "to_int v = Some n"
      using assms Some by (auto simp: readable_def asked_def)
    then show ?thesis using Some False
      by (simp add: when_given_try_def asked_def filter_year_def)
  qed
qed

lemma when_given_try_unreadable:
  assumes "\<not> readable to_int p"
  shows "\<exists>v. \<forall>cmp qs. when_given_try p (filter_year to_int cmp) qs = Inl (ValueError v)"
proof -
  obtain v where "p = Some v" "v \<noteq> []" "to_int v = None"
    using assms by (cases p) (auto simp: readable_def asked_def)
  then have "\<forall>cmp qs. when_given_try p (filter_year to_int cmp) qs = Inl (ValueError v)"
    by (simp add: when_given_try_def filter_year_def)
  then show ?thesis by blast
qed

lemma asked_year_eq:
  "asked p (\<lambda>v. case to_int v of None \<Rightarrow> False | Some n \<Rightarrow> year r = n)
   = asked p (\<lambda>v. to_int v = Some (year r))"
  by (cases p) (auto simp: asked_def split: option.splits)

lemma get_queryset_readable:
  assumes "readable to_int (params ''year'')" "readable to_int (params ''year_min'')"
    "readable to_int (params ''year_max'')"
  shows "get_queryset upper to_int params table
         = Inr (filter (satisfies upper to_int params) table)"
proof -
  let ?q1 = "filter (\<lambda>r. asked (params ''entity'') (\<lambda>v. icontains upper v (entity r))) table"
  let ?q2 = "filter (\<lambda>r. asked (params ''code'') (\<lambda>v. code r = Some v)) ?q1"
  let ?q3 = "filter (\<lambda>r. asked (params ''year'')
               (\<lambda>v. case to_int v of None \<Rightarrow> False | Some n \<Rightarrow> year r = n)) ?q2"
  let ?q4 = "filter (\<lambda>r. asked (params ''entity_type'') (\<lambda>v. entity_type r = Some v)) ?q3"
  let ?q5 = "filter (\<lambda>r. asked (params ''year_min'')
               (\<lambda>v. case to_int v of None \<Rightarrow> False | Some n \<Rightarrow> year r \<ge> n)) ?q4"
  let ?q6 = "filter (\<lambda>r. asked (params ''year_max'')
               (\<lambda>v. case to_int v of None \<Rightarrow> False | Some n \<Rightarrow> year r \<le> n)) ?q5"
  have s1: "when_given (params ''entity'') (\<lambda>v. filter (\<lambda>r. icontains upper v (entity r))) table = ?q1"
    by (rule when_given_filter)
  have s2: "when_given (params ''code'') (\<lambda>v. filter (\<lambda>r. code r = Some v)) ?q1 = ?q2"
    by (rule when_given_filter)
  have s3: "when_given_try (params ''year'') (filter_year to_int (=)) ?q2 = Inr ?q3"
    using assms(1) by (rule when_given_try_readable)
  have s4: "when_given (params ''entity_type'') (\<lambda>v. filter (\<lambda>r. entity_type r = Some v)) ?q3 = ?q4"
    by (rule when_given_filter)
  have s5: "when_given_try (params ''year_min'') (filter_year to_int (\<ge>)) ?q4 = Inr ?q5"
    using assms(2) by (rule when_given_try_readable)
  have s6: "when_given_try (params ''year_max'') (filter_year to_int (\<le>)) ?q5 = Inr ?q6"
    using assms(3) by (rule when_given_try_readable)
  have "get_queryset upper to_int params table = Inr ?q6"
    unfolding get_queryset_def Let_def s1 s2 s3 sum.case s4 s5 s6 ..
  also have "?q6 = filter (satisfies upper to_int params) table"
    unfolding filter_filter asked_year_eq
    by (rule filter_cong[OF refl]) (auto simp: satisfies_def)
  finally show ?thesis .
qed

lemma get_queryset_unreadable:
  assumes "\<not> (readable to_int (params ''year'') \<and> readable to_int (params ''year_min'')
             \<and> readable to_int (params ''year_max''))"
  shows "\<exists>v. get_queryset upper to_int params table = Inl (ValueError v)"
proof (cases "readable to_int (params ''year'')")
  case False
  then obtain v where
    "\<forall>cmp qs. when_given_try (params ''year'') (filter_year to_int cmp) qs = Inl (ValueError v)"
    using when_given_try_unreadable by blast
  then have "get_queryset upper to_int params table = Inl (ValueError v)"
    by (simp add: get_queryset_def Let_def)
  then show ?thesis by blast
next
  case y: True
  show ?thesis
  proof (cases "readable to_int (params ''year_min'')")
    case False
    then obtain v where
      "\<forall>cmp qs. when_given_try (params ''year_min'') (filter_year to_int cmp) qs = Inl (ValueError v)"
      using when_given_try_unreadable by blast
    then have "get_queryset upper to_int params table = Inl (ValueError v)"
      by (simp add: get_queryset_def Let_def when_given_try_readable[OF y])
    then show ?thesis by blast
  next
    case m: True
    then have "\<not> readable to_int (params ''year_max'')" using assms y by simp
    then obtain v where
      "\<forall>cmp qs. when_given_try (params ''year_max'') (filter_year to_int cmp) qs = Inl (ValueError v)"
      using when_given_try_unreadable by blast
    then have "get_queryset upper to_int params table = Inl (ValueError v)"
      by (simp add: get_queryset_def Let_def when_given_try_readable[OF y]
          when_given_try_readable[OF m])
    then show ?thesis by blast
  qed
qed

lemma parse_int_years: "parse_int ''2020'' = Some 2020" "parse_int ''1999'' = Some 1999"
  by (simp_all add: parse_int_def is_digit_def digits_value_def Let_def)

lemma readable_None: "readable to_int None"
  by (simp add: readable_def asked_def)

lemma given_empty:
  "when_given ((params(k \<mapsto> [])) n) = when_given ((params(k := None)) n)"
  by (simp add: fun_eq_iff when_given_def)

lemma given_try_empty:
  "when_given_try ((params(k \<mapsto> [])) n) = when_given_try ((params(k := None)) n)"
  by (simp add: fun_eq_iff when_given_try_def)

lemma aggregate_electricity:
  "aggregate CleanedElectricityProduction ElectricityProduction_stats qs
   = Inl (FieldError ''electricity_from_fossil_fuels_twh'')"
  by (simp add: aggregate_def ElectricityProduction_stats_def field_names_def model_fields_def)

lemma aggregate_energy:
  "aggregate CleanedEnergyProdCons EnergyProdCons_stats qs
   = Inl (FieldError ''primary_energy_consumption_twh'')"
  by (simp add: aggregate_def EnergyProdCons_stats_def field_names_def model_fields_def)

section \<open>Entity classification\<close>

text \<open>
  Claim C1. In every frame the clean/transform stage produces from a dataset with an
  entity column, the entity_type of each row is "aggregate" exactly when the entity string
  contains one of the seven labels World, Africa, Asia, Europe, OECD, EU, ASEAN as a
  substring, and "country" otherwise; it is computed from the row's entity alone.
\<close>

theorem entity_type_classification:
  assumes "wf_frame df"
    and "clean_dataset lower parse fmt today key df = Inr out"
    and "''entity'' \<in> set (columns out)"
    and "r \<in> set (rows out)"
  shows "get_cell (columns out) ''entity_type'' r =
           Str (if (\<exists>agg \<in> set aggregates. \<exists>p q.
                      py_str fmt (get_cell (columns out) ''entity'' r) = p @ agg @ q)
                then ''aggregate'' else ''country'')"
proof -
  let ?M = "add_metadata key today (validate_years parse
               (remove_duplicates (handle_missing_codes (standardize_columns lower df))))"
  have out: "out = add_entity_type fmt ?M" using clean_dataset_Inr(2)[OF assms(2)] .
  have wf: "wf_frame ?M"
    by (intro wf_add_metadata wf_validate_years wf_remove_duplicates wf_handle_missing_codes
        wf_standardize_columns assms(1))
  have ent: "''entity'' \<in> set (columns ?M)"
    using columns_add_entity_type_cases[of "''entity''" fmt ?M] assms(3) out by auto
  have "get_cell (columns out) ''entity_type'' r
        = Str (classify fmt (get_cell (columns out) ''entity'' r))"
    using add_entity_type_row[OF wf ent] assms(4) out by simp
  then show ?thesis by (simp add: classify_def list_ex_iff contains_iff)
qed

theorem entity_type_classification_witness:
  "wf_frame sample_frame
   \<and> clean_dataset ascii_lower parse_decimal (\<lambda>c. ''nan'') (Date 2025 11 19) ''co2_emissions'' sample_frame
       = Inr sample_cleaned
   \<and> ''entity'' \<in> set (columns sample_cleaned)
   \<and> rows sample_cleaned ! 1 \<in> set (rows sample_cleaned)
   \<and> get_cell (columns sample_cleaned) ''entity'' (rows sample_cleaned ! 1)
       = Str ''European Union (27)''
   \<and> get_cell (columns sample_cleaned) ''entity_type'' (rows sample_cleaned ! 1)
       = Str ''aggregate''"
proof -
  have h1: "wf_frame sample_frame" by code_simp
  have h2: "clean_dataset ascii_lower parse_decimal (\<lambda>c. ''nan'') (Date 2025 11 19) ''co2_emissions''
              sample_frame = Inr sample_cleaned" by code_simp
  have h3: "''entity'' \<in> set (columns sample_cleaned)" by code_simp
  have h4: "rows sample_cleaned ! 1 \<in> set (rows sample_cleaned)" by code_simp
  have e: "get_cell (columns sample_cleaned) ''entity'' (rows sample_cleaned ! 1)
             = Str ''European Union (27)''" by code_simp
  have ex: "\<exists>agg \<in> set aggregates. \<exists>p q.
              py_str (\<lambda>c. ''nan'') (get_cell (columns sample_cleaned) ''entity''
                (rows sample_cleaned ! 1)) = p @ agg @ q"
    unfolding contains_iff[symmetric] by code_simp
  have v: "get_cell (columns sample_cleaned) ''entity_type'' (rows sample_cleaned ! 1)
             = Str ''aggregate''"
    using entity_type_classification[OF h1 h2 h3 h4] ex by (simp only: if_True)
  from h1 h2 h3 h4 e v show ?thesis by blast
qed

section \<open>Column normalisation\<close>

text \<open>
  Claim C6, as the code has it. The renaming is a function of the column name alone. It
  lower-cases the name, writes 2 for the subscript two, deletes the parentheses, and puts
  an underscore for " - " and then for every space and hyphen that is left; every other
  character (other punctuation, currency and unit signs, a tab) stays where it is. The
  result has no space, hyphen or parenthesis and no underscore at either end. For a name
  in which these replacements leave at most two underscores in a row, every run of
  underscores is collapsed to a single one.
\<close>

theorem normalize_column_rewrite:
  "rewrite_separators lower col =
     map separator_to_underscore
       (replace '' - '' ''_''
         (filter (\<lambda>c. c \<noteq> CHR ''('' \<and> c \<noteq> CHR '')'')
           (replace subscript_two ''2'' (lower col))))
   \<and> (\<not> contains ''___'' (rewrite_separators lower col) \<longrightarrow>
        normalize_column lower col =
          strip ''_'' (collapse_underscores (rewrite_separators lower col)))
   \<and> \<not> contains ''__'' (collapse_underscores (rewrite_separators lower col))
   \<and> filter kept_char (normalize_column lower col)
       = filter kept_char (replace subscript_two ''2'' (lower col))
   \<and> set (normalize_column lower col) \<inter> {CHR '' '', CHR ''-'', CHR ''('', CHR '')''} = {}
   \<and> (normalize_column lower col = [] \<or>
        (hd (normalize_column lower col) \<noteq> CHR ''_''
         \<and> last (normalize_column lower col) \<noteq> CHR ''_''))"
proof (intro conjI)
  show "rewrite_separators lower col =
     map separator_to_underscore
       (replace '' - '' ''_''
         (filter (\<lambda>c. c \<noteq> CHR ''('' \<and> c \<noteq> CHR '')'')
           (replace subscript_two ''2'' (lower col))))"
    by (rule rewrite_separators_exact)
  show "\<not> contains ''___'' (rewrite_separators lower col) \<longrightarrow>
        normalize_column lower col =
          strip ''_'' (collapse_underscores (rewrite_separators lower col))"
    by (simp add: normalize_column_def replace_pairs_collapse)
  show "\<not> contains ''__'' (collapse_underscores (rewrite_separators lower col))"
    by (rule collapse_underscores_single)
  have r: "filter kept_char (replace old new s) = filter kept_char s"
    if "set old \<subseteq> set '' -()_''" "set new \<subseteq> set '' -()_''" for old new s
    using that by (intro filter_replace) (auto simp: kept_char_def)
  have t: "filter kept_char (strip ''_'' s) = filter kept_char s" for s
    by (rule filter_strip) (simp add: kept_char_def)
  show "filter kept_char (normalize_column lower col)
       = filter kept_char (replace subscript_two ''2'' (lower col))"
    by (simp add: normalize_column_def rewrite_separators_def t r)
  have sub: "set (normalize_column lower col) \<subseteq> set (rewrite_separators lower col) \<union> {CHR ''_''}"
    unfolding normalize_column_def
    using set_strip_subset[of "''_''" "replace ''__'' ''_'' (rewrite_separators lower col)"]
      set_replace_subset[of "''__''" "''_''" "rewrite_separators lower col"]
    by auto
  show "set (normalize_column lower col) \<inter> {CHR '' '', CHR ''-'', CHR ''('', CHR '')''} = {}"
    using sub rewrite_separators_chars[of lower col] by auto
  show "normalize_column lower col = [] \<or>
        (hd (normalize_column lower col) \<noteq> CHR ''_''
         \<and> last (normalize_column lower col) \<noteq> CHR ''_'')"
    using strip_ends[of "''_''" "replace ''__'' ''_'' (rewrite_separators lower col)"]
    unfolding normalize_column_def by simp
qed

theorem normalize_column_rewrite_witness:
  "\<not> contains ''___''
       (rewrite_separators ascii_lower ''Annual CO2 emissions (per capita) - total'')
   \<and> normalize_column ascii_lower ''Annual CO2 emissions (per capita) - total''
       = strip ''_'' (collapse_underscores
           (rewrite_separators ascii_lower ''Annual CO2 emissions (per capita) - total''))
   \<and> normalize_column ascii_lower ''Annual CO2 emissions (per capita) - total''
       = ''annual_co2_emissions_per_capita_total''"
proof -
  let ?c = "''Annual CO2 emissions (per capita) - total''"
  have h: "\<not> contains ''___'' (rewrite_separators ascii_lower ?c)" by code_simp
  have v: "normalize_column ascii_lower ?c = ''annual_co2_emissions_per_capita_total''"
    by code_simp
  from normalize_column_rewrite[of ascii_lower ?c] h
  have "normalize_column ascii_lower ?c
        = strip ''_'' (collapse_underscores (rewrite_separators ascii_lower ?c))"
    by (elim conjE impE)
  with h v show ?thesis by (intro conjI)
qed

text \<open>
  Three spaces in a row leave two adjacent underscores; a dollar sign is not removed; a
  tab is not a separator.
\<close>

theorem normalize_column_counterexample:
  "normalize_column ascii_lower ''a   b'' = ''a__b''
   \<and> normalize_column ascii_lower ''Cost ($)'' = ''cost_$''
   \<and> normalize_column ascii_lower [CHR ''a'', CHR 0x09, CHR ''b''] = [CHR ''a'', CHR 0x09, CHR ''b'']"
  by code_simp

section \<open>Surrogate keys\<close>

text \<open>
  Claim C5. When a cleaned frame of n rows is loaded, the id column of the table that
  replaces the old one is 1, 2, ..., n from the first row to the last, whatever the
  database held before: the ids are distinct and contiguous, and each run starts again
  from 1. A cleaned frame that already has a column named id is not loaded (the
  insertion raises).
\<close>

theorem load_ids_contiguous:
  assumes "cleaned key = Some df" and "''id'' \<notin> set (columns df)"
  shows "\<exists>t entry. load_dataset cleaned db key = Inr (db(''cleaned_'' @ key \<mapsto> t), entry)
           \<and> rows_loaded entry = length (rows df)
           \<and> column_values ''id'' t = map (\<lambda>i. Num (Fin (of_int i))) [1 ..int (length (rows df))]
           \<and> distinct (column_values ''id'' t)"
proof -
  obtain t where t: "insert_id df = Inr t" "length (rows t) = length (rows df)"
    "column_values ''id'' t = map (\<lambda>i. Num (Fin (of_int i))) [1 ..int (length (rows df))]"
    using insert_id_column[OF assms(2)] by blast
  have "load_dataset cleaned db key =
          Inr (db(''cleaned_'' @ key \<mapsto> t),
               \<lparr>loaded_dataset = key, table_name = ''cleaned_'' @ key,
                rows_loaded = length (rows t)\<rparr>)"
    using assms(1) t(1) by (simp add: load_dataset_def)
  moreover have "distinct (column_values ''id'' t)" unfolding t(3) by (rule distinct_ids)
  ultimately show ?thesis using t(2,3) by auto
qed

theorem load_ids_contiguous_witness:
  "[''co2_emissions'' \<mapsto> sample_cleaned] ''co2_emissions'' = Some sample_cleaned
   \<and> ''id'' \<notin> set (columns sample_cleaned)
   \<and> (\<exists>t entry. load_dataset [''co2_emissions'' \<mapsto> sample_cleaned] Map.empty ''co2_emissions''
          = Inr ([''cleaned_co2_emissions'' \<mapsto> t], entry)
        \<and> rows_loaded entry = 2
        \<and> column_values ''id'' t = [Num (Fin 1), Num (Fin 2)]
        \<and> distinct (column_values ''id'' t))"
proof -
  have h1: "[''co2_emissions'' \<mapsto> sample_cleaned] ''co2_emissions'' = Some sample_cleaned"
    by simp
  have h2: "''id'' \<notin> set (columns sample_cleaned)" by code_simp
  have n: "length (rows sample_cleaned) = 2" by code_simp
  have u: "map (\<lambda>i. Num (Fin (of_int i))) [1 ..int 2] = [Num (Fin 1), Num (Fin 2)]"
    by code_simp
  from load_ids_contiguous[of "[''co2_emissions'' \<mapsto> sample_cleaned]" "''co2_emissions''"
      sample_cleaned Map.empty, OF h1 h2] show ?thesis
    using h1 h2 unfolding n u by simp
qed

section \<open>The year filter\<close>

text \<open>
  Claim C3. For a dataset whose columns, once renamed, include year, the stage makes the
  year column numeric and keeps exactly the rows of the deduplicated frame whose coerced
  year y satisfies 1750 \<le> y \<le> 2025: a row whose year cannot be read (NaN) or lies
  outside that range is dropped, so every year of the output lies in [1750, 2025]. The
  other columns of the data hold the cells of the kept rows, in their order.
\<close>

theorem years_in_range:
  assumes "wf_frame df"
    and "clean_dataset lower parse fmt today key df = Inr out"
    and "''year'' \<in> set (columns out)"
  shows "(\<forall>c \<in> set (column_values ''year'' out). \<exists>y. c = Num (Fin y) \<and> 1750 \<le> y \<and> y \<le> 2025)
       \<and> column_values ''year'' out =
           filter year_in_range
             (map (\<lambda>c. Num (to_numeric parse c)) (column_values ''year'' (deduplicated lower df)))
       \<and> (\<forall>m \<in> set (columns (deduplicated lower df)) -
                 {''year'', ''data_source'', ''data_quality_flag'', ''last_updated'',
                  ''entity_type''}.
            column_values m out =
              map (get_cell (columns (deduplicated lower df)) m)
                (filter (\<lambda>r. year_in_range (Num (to_numeric parse
                               (get_cell (columns (deduplicated lower df)) ''year'' r))))
                   (rows (deduplicated lower df))))"
proof -
  let ?D = "deduplicated lower df"
  let ?V = "validate_years parse ?D"
  let ?M = "add_metadata key today ?V"
  have out: "out = add_entity_type fmt ?M" using clean_dataset_deduplicated[OF assms(2)] .
  have wfD: "wf_frame ?D" using assms(1) by (rule wf_deduplicated)
  have wfV: "wf_frame ?V" using wfD by (rule wf_validate_years)
  have wfM: "wf_frame ?M" using wfV by (rule wf_add_metadata)
  have yV: "''year'' \<in> set (columns ?V)" using assms(3) unfolding out by (rule year_column_kept)
  then have yD: "''year'' \<in> set (columns ?D)" by (simp add: columns_validate_years)
  have through: "column_values m out = column_values m ?V"
    if "m \<in> set (columns ?V)"
      and "m \<notin> {''data_source'', ''data_quality_flag'', ''last_updated'', ''entity_type''}" for m
  proof -
    have "column_values m out = column_values m ?M"
      unfolding out using wfM that by (intro column_add_entity_type mem_columns_add_metadata) auto
    also have "\<dots> = column_values m ?V"
      using wfV that by (intro column_add_metadata) auto
    finally show ?thesis .
  qed
  have year: "column_values ''year'' out =
           filter year_in_range
             (map (\<lambda>c. Num (to_numeric parse c)) (column_values ''year'' ?D))"
    using through[OF yV] year_column_validate_years[OF wfD yD] by simp
  have range: "\<forall>c \<in> set (column_values ''year'' out).
                 \<exists>y. c = Num (Fin y) \<and> 1750 \<le> y \<and> y \<le> 2025"
    unfolding year using year_in_rangeD by auto
  have others: "column_values m out =
              map (get_cell (columns ?D) m)
                (filter (\<lambda>r. year_in_range (Num (to_numeric parse
                               (get_cell (columns ?D) ''year'' r)))) (rows ?D))"
    if "m \<in> set (columns ?D) -
                 {''year'', ''data_source'', ''data_quality_flag'', ''last_updated'',
                  ''entity_type''}" for m
  proof -
    have "column_values m out = column_values m ?V"
      using that by (intro through) (auto simp: columns_validate_years)
    then show ?thesis
      using other_column_validate_years[OF wfD yD, of m parse] that by simp
  qed
  show ?thesis
  proof (intro conjI ballI)
    fix c assume "c \<in> set (column_values ''year'' out)"
    then show "\<exists>y. c = Num (Fin y) \<and> 1750 \<le> y \<and> y \<le> 2025" using range by (rule bspec[rotated])
  next
    show "column_values ''year'' out =
           filter year_in_range
             (map (\<lambda>c. Num (to_numeric parse c)) (column_values ''year'' ?D))" by (rule year)
  next
    fix m assume "m \<in> set (columns ?D) -
                 {''year'', ''data_source'', ''data_quality_flag'', ''last_updated'',
                  ''entity_type''}"
    then show "column_values m out =
              map (get_cell (columns ?D) m)
                (filter (\<lambda>r. year_in_range (Num (to_numeric parse
                               (get_cell (columns ?D) ''year'' r)))) (rows ?D))" by (rule others)
  qed
qed

theorem years_in_range_witness:
  "wf_frame sample_frame
   \<and> clean_dataset ascii_lower parse_decimal (\<lambda>c. ''nan'') (Date 2025 11 19) ''co2_emissions'' sample_frame
       = Inr sample_cleaned
   \<and> ''year'' \<in> set (columns sample_cleaned)
   \<and> column_values ''year'' (deduplicated ascii_lower sample_frame)
       = [Num (Fin 2020), Num (Fin 2021), Num (Fin 1700), Num NaN]
   \<and> column_values ''year'' sample_cleaned =
        filter year_in_range
          (map (\<lambda>c. Num (to_numeric parse_decimal c))
             (column_values ''year'' (deduplicated ascii_lower sample_frame)))
   \<and> column_values ''year'' sample_cleaned = [Num (Fin 2020), Num (Fin 2021)]"
proof -
  have h1: "wf_frame sample_frame" by code_simp
  have h2: "clean_dataset ascii_lower parse_decimal (\<lambda>c. ''nan'') (Date 2025 11 19) ''co2_emissions''
              sample_frame = Inr sample_cleaned" by code_simp
  have h3: "''year'' \<in> set (columns sample_cleaned)" by code_simp
  have d: "column_values ''year'' (deduplicated ascii_lower sample_frame)
             = [Num (Fin 2020), Num (Fin 2021), Num (Fin 1700), Num NaN]" by code_simp
  have v: "column_values ''year'' sample_cleaned = [Num (Fin 2020), Num (Fin 2021)]"
    by code_simp
  from years_in_range[OF h1 h2 h3]
  have "column_values ''year'' sample_cleaned =
        filter year_in_range
          (map (\<lambda>c. Num (to_numeric parse_decimal c))
             (column_values ''year'' (deduplicated ascii_lower sample_frame)))" by (elim conjE)
  with h1 h2 h3 d v show ?thesis by (intro conjI)
qed

section \<open>Duplicate rows\<close>

text \<open>
  Claim C4, as the code has it. Duplicates are removed before the year is made numeric
  and before the provenance columns and entity_type are written. The rows of the output
  are pairwise different provided that none of data_source, data_quality_flag,
  last_updated and entity_type is already a column of the renamed input (so that these
  are appended, not overwritten), and that the coercion of the year sends no two
  different year cells of the deduplicated frame to one number (as when there is no year
  column or it is numeric already).
\<close>

theorem output_rows_distinct:
  assumes "wf_frame df"
    and "clean_dataset lower parse fmt today key df = Inr out"
    and "set (map (normalize_column lower) (columns df)) \<inter>
           {''data_source'', ''data_quality_flag'', ''last_updated'', ''entity_type''} = {}"
    and "''year'' \<in> set (map (normalize_column lower) (columns df)) \<Longrightarrow>
           inj_on (to_numeric parse) (set (column_values ''year'' (deduplicated lower df)))"
  shows "distinct (rows out)"
proof -
  let ?D = "deduplicated lower df"
  let ?V = "validate_years parse ?D"
  let ?M = "add_metadata key today ?V"
  have out: "out = add_entity_type fmt ?M" using clean_dataset_deduplicated[OF assms(2)] .
  have colsV: "columns ?V = map (normalize_column lower) (columns df)"
    by (simp add: columns_validate_years columns_deduplicated)
  have "distinct (rows ?V)"
    using wf_deduplicated[OF assms(1)] distinct_rows_deduplicated assms(4)
    by (intro distinct_rows_validate_years) (simp_all add: columns_deduplicated)
  moreover have fresh: "set (columns ?V) \<inter>
      {''data_source'', ''data_quality_flag'', ''last_updated''} = {}"
    using assms(3) unfolding colsV by auto
  ultimately have "distinct (rows ?M)" by (intro distinct_rows_add_metadata)
  moreover have "''entity_type'' \<notin> set (columns ?M)"
    using assms(3) unfolding columns_add_metadata_fresh[OF fresh] colsV by auto
  ultimately show ?thesis unfolding out by (intro distinct_rows_add_entity_type)
qed

theorem output_rows_distinct_witness:
  "wf_frame sample_frame
   \<and> clean_dataset ascii_lower parse_decimal (\<lambda>c. ''nan'') (Date 2025 11 19) ''co2_emissions'' sample_frame
       = Inr sample_cleaned
   \<and> set (map (normalize_column ascii_lower) (columns sample_frame)) \<inter>
       {''data_source'', ''data_quality_flag'', ''last_updated'', ''entity_type''} = {}
   \<and> inj_on (to_numeric parse_decimal) (set (column_values ''year'' (deduplicated ascii_lower sample_frame)))
   \<and> distinct (rows sample_cleaned)"
proof -
  have h1: "wf_frame sample_frame" by code_simp
  have h2: "clean_dataset ascii_lower parse_decimal (\<lambda>c. ''nan'') (Date 2025 11 19) ''co2_emissions''
              sample_frame = Inr sample_cleaned" by code_simp
  have c: "map (normalize_column ascii_lower) (columns sample_frame)
             = [''entity'', ''code'', ''year'', ''annual_co2_emissions'']" by code_simp
  have h3: "set (map (normalize_column ascii_lower) (columns sample_frame)) \<inter>
       {''data_source'', ''data_quality_flag'', ''last_updated'', ''entity_type''} = {}"
    unfolding c by simp
  have d: "column_values ''year'' (deduplicated ascii_lower sample_frame)
             = [Num (Fin 2020), Num (Fin 2021), Num (Fin 1700), Num NaN]" by code_simp
  have h4: "inj_on (to_numeric parse_decimal)
              (set (column_values ''year'' (deduplicated ascii_lower sample_frame)))"
    unfolding d by simp
  from output_rows_distinct[OF h1 h2 h3 h4] h1 h2 h3 h4 show ?thesis by (intro conjI)
qed

text \<open>
  Two rows whose years are the different strings 2020 and 2020.0 survive the duplicate
  removal and are the same row once the year is a number; two rows that differ only in a
  column named like a provenance column are the same row once it is overwritten.
\<close>

theorem output_rows_distinct_counterexample:
  "clean_dataset ascii_lower parse_decimal (\<lambda>c. ''nan'') (Date 2025 11 19) ''co2_emissions''
     \<lparr>columns = [''Entity'', ''Year''],
      rows = [[Str ''France'', Str ''2020''], [Str ''France'', Str ''2020.0'']]\<rparr>
   = Inr \<lparr>columns = [''entity'', ''year'', ''data_source'', ''data_quality_flag'',
                      ''last_updated'', ''entity_type''],
          rows = [[Str ''France'', Num (Fin 2020), Str ''co2_emissions'', Str ''clean'',
                   Day (Date 2025 11 19), Str ''country''],
                  [Str ''France'', Num (Fin 2020), Str ''co2_emissions'', Str ''clean'',
                   Day (Date 2025 11 19), Str ''country'']]\<rparr>
   \<and> clean_dataset ascii_lower parse_decimal (\<lambda>c. ''nan'') (Date 2025 11 19) ''co2_emissions''
     \<lparr>columns = [''Entity'', ''Data source''],
      rows = [[Str ''France'', Str ''a''], [Str ''France'', Str ''b'']]\<rparr>
   = Inr \<lparr>columns = [''entity'', ''data_source'', ''data_quality_flag'', ''last_updated'',
                      ''entity_type''],
          rows = [[Str ''France'', Str ''co2_emissions'', Str ''clean'',
                   Day (Date 2025 11 19), Str ''country''],
                  [Str ''France'', Str ''co2_emissions'', Str ''clean'',
                   Day (Date 2025 11 19), Str ''country'']]\<rparr>"
proof (rule conjI)
  have "distinct (map (normalize_column ascii_lower) (columns \<lparr>columns = [''Entity'', ''Year''],
      rows = [[Str ''France'', Str ''2020''], [Str ''France'', Str ''2020.0'']]\<rparr>))"
    by code_simp
  then show "clean_dataset ascii_lower parse_decimal (\<lambda>c. ''nan'') (Date 2025 11 19) ''co2_emissions''
     \<lparr>columns = [''Entity'', ''Year''],
      rows = [[Str ''France'', Str ''2020''], [Str ''France'', Str ''2020.0'']]\<rparr>
   = Inr \<lparr>columns = [''entity'', ''year'', ''data_source'', ''data_quality_flag'',
                      ''last_updated'', ''entity_type''],
          rows = [[Str ''France'', Num (Fin 2020), Str ''co2_emissions'', Str ''clean'',
                   Day (Date 2025 11 19), Str ''country''],
                  [Str ''France'', Num (Fin 2020), Str ''co2_emissions'', Str ''clean'',
                   Day (Date 2025 11 19), Str ''country'']]\<rparr>"
    by (simp only: clean_dataset_success text_year_deduplicated text_year_validated
        text_year_metadata text_year_entity_type)
next
  show "clean_dataset ascii_lower parse_decimal (\<lambda>c. ''nan'') (Date 2025 11 19) ''co2_emissions''
     \<lparr>columns = [''Entity'', ''Data source''],
      rows = [[Str ''France'', Str ''a''], [Str ''France'', Str ''b'']]\<rparr>
   = Inr \<lparr>columns = [''entity'', ''data_source'', ''data_quality_flag'', ''last_updated'',
                      ''entity_type''],
          rows = [[Str ''France'', Str ''co2_emissions'', Str ''clean'',
                   Day (Date 2025 11 19), Str ''country''],
                  [Str ''France'', Str ''co2_emissions'', Str ''clean'',
                   Day (Date 2025 11 19), Str ''country'']]\<rparr>"
    by code_simp
qed

section \<open>Determinism of the cleaning\<close>

text \<open>
  Claim C7. Two runs of the clean/transform stage on the same input frames, whatever the
  clock shows in each, either fail alike or succeed with the same cleaning summary (so
  the same cleaned row counts) and, for every dataset, frames with the same columns, the
  same number of rows and the same cells in every column but last_updated. Statistics
  computed from the measures are therefore the same.
\<close>

theorem rerun_same_data:
  assumes "\<forall>key df. files key = Some df \<longrightarrow> wf_frame df"
  shows "same_runs (clean_and_transform_data lower parse fmt now1 files keys)
                   (clean_and_transform_data lower parse fmt now2 files keys)"
proof (induction keys)
  case Nil
  show ?case by simp
next
  case (Cons key keys)
  show ?case
  proof (cases "files key")
    case None
    then show ?thesis by simp
  next
    case (Some df)
    then have wf: "wf_frame df" using assms by blast
    from clean_dataset_rerun[OF wf, of lower parse fmt "now1 key" key "now2 key"]
    consider e where "clean_dataset lower parse fmt (now1 key) key df = Inl e"
        "clean_dataset lower parse fmt (now2 key) key df = Inl e"
      | a b where "clean_dataset lower parse fmt (now1 key) key df = Inr a"
        "clean_dataset lower parse fmt (now2 key) key df = Inr b" "same_but_last_updated a b"
      by blast
    then show ?thesis
    proof cases
      case 1
      then show ?thesis using Some by simp
    next
      case 2
      let ?r1 = "clean_and_transform_data lower parse fmt now1 files keys"
      let ?r2 = "clean_and_transform_data lower parse fmt now2 files keys"
      note len = same_but_last_updatedD(2)[OF 2(3)]
      show ?thesis
      proof (cases ?r1)
        case (Inl e1)
        then obtain e2 where "?r2 = Inl e2" "e1 = e2"
          using Cons.IH by (cases ?r2) auto
        then show ?thesis using Some 2 Inl by simp
      next
        case (Inr p1)
        then obtain p2 where p2: "?r2 = Inr p2" using Cons.IH by (cases ?r2) auto
        obtain o1 s1 o2 s2 where p: "p1 = (o1, s1)" "p2 = (o2, s2)"
          by (cases p1, cases p2) auto
        have "s1 = s2" "list_all2 (\<lambda>(k1, a) (k2, b). k1 = k2 \<and> same_but_last_updated a b) o1 o2"
          using Cons.IH Inr p2 p by simp_all
        then show ?thesis using Some 2 Inr p2 p len by simp
      qed
    qed
  qed
qed

theorem rerun_same_data_witness:
  "wf_frame sample_frame
   \<and> same_runs
        (clean_and_transform_data ascii_lower parse_decimal (\<lambda>c. ''nan'') (\<lambda>k. Date 2025 11 19)
           [''co2_emissions'' \<mapsto> sample_frame] [''co2_emissions''])
        (clean_and_transform_data ascii_lower parse_decimal (\<lambda>c. ''nan'') (\<lambda>k. Date 2025 11 20)
           [''co2_emissions'' \<mapsto> sample_frame] [''co2_emissions''])
   \<and> clean_and_transform_data ascii_lower parse_decimal (\<lambda>c. ''nan'') (\<lambda>k. Date 2025 11 19)
           [''co2_emissions'' \<mapsto> sample_frame] [''co2_emissions'']
       = Inr ([(''co2_emissions'', sample_cleaned)],
              [\<lparr>dataset = ''co2_emissions'', original_rows = 5, cleaned_rows = 2,
                removed_rows = 3\<rparr>])"
proof -
  have h: "wf_frame sample_frame" by code_simp
  have hyp: "\<forall>key df. [''co2_emissions'' \<mapsto> sample_frame] key = Some df \<longrightarrow> wf_frame df"
    using h by (simp split: if_splits)
  have c: "clean_dataset ascii_lower parse_decimal (\<lambda>c. ''nan'') (Date 2025 11 19) ''co2_emissions''
             sample_frame = Inr sample_cleaned" by code_simp
  have n: "length (rows sample_frame) = 5" "length (rows sample_cleaned) = 2" by code_simp+
  have v: "clean_and_transform_data ascii_lower parse_decimal (\<lambda>c. ''nan'') (\<lambda>k. Date 2025 11 19)
           [''co2_emissions'' \<mapsto> sample_frame] [''co2_emissions'']
       = Inr ([(''co2_emissions'', sample_cleaned)],
              [\<lparr>dataset = ''co2_emissions'', original_rows = 5, cleaned_rows = 2,
                removed_rows = 3\<rparr>])"
    by (simp add: c n)
  from rerun_same_data[OF hyp] h v show ?thesis by (intro conjI)
qed

section \<open>Filtering by query parameters\<close>

text \<open>
  Claim C8. A request with year=2020 and entity=France gets exactly the stored rows whose
  year is 2020 and whose entity contains France, letter case apart. In general the query
  set is the stored rows that satisfy every parameter that is given: entity by
  containment, code, year and entity_type by equality, year_min and year_max as bounds.
  A year parameter that cannot be read as an integer makes the request fail.
\<close>

theorem get_queryset_filters:
  "(to_int ''2020'' = Some 2020 \<longrightarrow>
      get_queryset upper to_int [''year'' \<mapsto> ''2020'', ''entity'' \<mapsto> ''France''] table
        = Inr (filter (\<lambda>r. year r = 2020 \<and> contains (upper ''France'') (upper (entity r)))
                 table))
   \<and> (readable to_int (params ''year'') \<and> readable to_int (params ''year_min'')
        \<and> readable to_int (params ''year_max'') \<longrightarrow>
        get_queryset upper to_int params table
          = Inr (filter (satisfies upper to_int params) table))
   \<and> (\<forall>qs. get_queryset upper to_int params table = Inr qs \<longrightarrow>
          qs = filter (satisfies upper to_int params) table)"
proof (intro conjI impI allI)
  assume y: "to_int ''2020'' = Some 2020"
  let ?p = "[''year'' \<mapsto> ''2020'', ''entity'' \<mapsto> ''France'']"
  have "readable to_int (?p ''year'')" using y by (simp add: readable_def asked_def)
  moreover have "readable to_int (?p ''year_min'')" "readable to_int (?p ''year_max'')"
    by (simp_all add: readable_None)
  ultimately have "get_queryset upper to_int ?p table
                   = Inr (filter (satisfies upper to_int ?p) table)"
    by (rule get_queryset_readable)
  moreover have "satisfies upper to_int ?p
                 = (\<lambda>r. year r = 2020 \<and> contains (upper ''France'') (upper (entity r)))"
    using y by (auto simp: fun_eq_iff satisfies_def asked_def icontains_def)
  ultimately show "get_queryset upper to_int ?p table
        = Inr (filter (\<lambda>r. year r = 2020 \<and> contains (upper ''France'') (upper (entity r)))
                 table)" by simp
next
  assume "readable to_int (params ''year'') \<and> readable to_int (params ''year_min'')
        \<and> readable to_int (params ''year_max'')"
  then show "get_queryset upper to_int params table
          = Inr (filter (satisfies upper to_int params) table)"
    by (intro get_queryset_readable) simp_all
next
  fix qs assume a: "get_queryset upper to_int params table = Inr qs"
  have "readable to_int (params ''year'') \<and> readable to_int (params ''year_min'')
        \<and> readable to_int (params ''year_max'')"
  proof (rule ccontr)
    assume "\<not> ?thesis"
    from get_queryset_unreadable[OF this, of upper table] a show False by auto
  qed
  then have "get_queryset upper to_int params table
          = Inr (filter (satisfies upper to_int params) table)"
    by (intro get_queryset_readable) simp_all
  with a show "qs = filter (satisfies upper to_int params) table" by simp
qed

theorem get_queryset_filters_witness:
  "parse_int ''2020'' = Some 2020
   \<and> get_queryset ascii_upper parse_int [''year'' \<mapsto> ''2020'', ''entity'' \<mapsto> ''France'']
        sample_table
       = Inr (filter (\<lambda>r. year r = 2020
                          \<and> contains (ascii_upper ''France'') (ascii_upper (entity r)))
                sample_table)
   \<and> map row_id (filter (\<lambda>r. year r = 2020
                          \<and> contains (ascii_upper ''France'') (ascii_upper (entity r)))
                sample_table) = [1]"
proof -
  have h: "parse_int ''2020'' = Some 2020" by (rule parse_int_years)
  have v: "map row_id (filter (\<lambda>r. year r = 2020
                          \<and> contains (ascii_upper ''France'') (ascii_upper (entity r)))
                sample_table) = [1]"
    by code_simp
  have c: "get_queryset ascii_upper parse_int [''year'' \<mapsto> ''2020'', ''entity'' \<mapsto> ''France'']
        sample_table
       = Inr (filter (\<lambda>r. year r = 2020
                          \<and> contains (ascii_upper ''France'') (ascii_upper (entity r)))
                sample_table)"
    using get_queryset_filters[of parse_int ascii_upper sample_table, THEN conjunct1] h
    by (rule mp)
  from h c v show ?thesis by (intro conjI)
qed

text \<open>
  Claim C10. A query parameter given with the empty string as its value filters nothing:
  the query set is the one of the request without that parameter, for every parameter
  and every table.
\<close>

theorem empty_value_is_absent:
  "get_queryset upper to_int (params(k \<mapsto> [])) table
   = get_queryset upper to_int (params(k := None)) table"
  unfolding get_queryset_def Let_def given_empty given_try_empty ..

theorem empty_value_is_absent_witness:
  "get_queryset ascii_upper parse_int [''year'' \<mapsto> ''2020'', ''entity'' \<mapsto> []] sample_table
   = get_queryset ascii_upper parse_int [''year'' \<mapsto> ''2020''] sample_table"
proof -
  have e: "[''year'' \<mapsto> ''2020''](''entity'' := None) = [''year'' \<mapsto> ''2020'']"
    by (simp add: fun_eq_iff)
  show ?thesis
    using empty_value_is_absent[of ascii_upper parse_int "[''year'' \<mapsto> ''2020'']" "''entity''"
        sample_table]
    unfolding e .
qed

section \<open>Summaries\<close>

text \<open>
  Claim C9. When no row is left after the filters, the summary of the CO2 emissions is a
  successful response with total_records 0 and null (None) for avg_emissions,
  max_emissions, min_emissions, latest_year and earliest_year.
\<close>

theorem co2_summary_empty:
  assumes "get_queryset upper to_int params table = Inr qs"
    and "backends params qs = []"
  shows "Co2Emissions_summary upper to_int backends params table =
           Inr [(''total_records'', IntV 0), (''avg_emissions'', Null),
                (''max_emissions'', Null), (''min_emissions'', Null),
                (''latest_year'', Null), (''earliest_year'', Null)]"
  using assms
  by (simp add: Co2Emissions_summary_def summary_def aggregate_def Co2Emissions_stats_def
      field_names_def model_fields_def eval_aggregate_def numbers_def)

theorem co2_summary_empty_witness:
  "get_queryset ascii_upper parse_int [''year'' \<mapsto> ''1999''] sample_table = Inr []
   \<and> (\<lambda>params qs. qs) [''year'' \<mapsto> ''1999''] ([] :: row list) = []
   \<and> Co2Emissions_summary ascii_upper parse_int (\<lambda>params qs. qs) [''year'' \<mapsto> ''1999'']
        sample_table
       = Inr [(''total_records'', IntV 0), (''avg_emissions'', Null),
              (''max_emissions'', Null), (''min_emissions'', Null),
              (''latest_year'', Null), (''earliest_year'', Null)]"
proof -
  let ?p = "[''year'' \<mapsto> ''1999'']"
  have "readable parse_int (?p ''year'')" "readable parse_int (?p ''year_min'')"
    "readable parse_int (?p ''year_max'')"
    by (simp_all add: readable_def asked_def parse_int_years)
  then have "get_queryset ascii_upper parse_int ?p sample_table
             = Inr (filter (satisfies ascii_upper parse_int ?p) sample_table)"
    by (rule get_queryset_readable)
  moreover have "filter (satisfies ascii_upper parse_int ?p) sample_table = []"
    by (simp add: satisfies_def asked_def parse_int_years sample_table_def sample_row_def)
  ultimately have h1: "get_queryset ascii_upper parse_int ?p sample_table = Inr []" by simp
  have h2: "(\<lambda>params qs. qs) ?p ([] :: row list) = []" by simp
  have c: "Co2Emissions_summary ascii_upper parse_int (\<lambda>params qs. qs) ?p sample_table
       = Inr [(''total_records'', IntV 0), (''avg_emissions'', Null),
              (''max_emissions'', Null), (''min_emissions'', Null),
              (''latest_year'', Null), (''earliest_year'', Null)]"
    using h1 h2 by (rule co2_summary_empty)
  from h1 h2 c show ?thesis by (intro conjI)
qed

text \<open>
  Claim C2. The summaries of the electricity production and of the energy production and
  consumption aggregate over electricity_from_fossil_fuels_twh,
  electricity_from_nuclear_twh, electricity_from_renewables_twh and
  primary_energy_consumption_twh. None of these is a field or a column that the model
  declares, so the aggregates cannot be resolved and the summary fails for every request.
\<close>

theorem summary_fields_undeclared:
  "set [''electricity_from_fossil_fuels_twh'', ''electricity_from_nuclear_twh'',
        ''electricity_from_renewables_twh'']
     \<inter> (set (field_names CleanedElectricityProduction)
        \<union> set (db_columns CleanedElectricityProduction)) = {}
   \<and> ''primary_energy_consumption_twh''
       \<notin> set (field_names CleanedEnergyProdCons) \<union> set (db_columns CleanedEnergyProdCons)
   \<and> aggregate CleanedElectricityProduction ElectricityProduction_stats qs
       = Inl (FieldError ''electricity_from_fossil_fuels_twh'')
   \<and> aggregate CleanedEnergyProdCons EnergyProdCons_stats qs
       = Inl (FieldError ''primary_energy_consumption_twh'')
   \<and> (\<exists>e. ElectricityProduction_summary upper to_int backends params table = Inl e)
   \<and> (\<exists>e. EnergyProdCons_summary upper to_int backends params table = Inl e)"
proof (intro conjI)
  show "set [''electricity_from_fossil_fuels_twh'', ''electricity_from_nuclear_twh'',
        ''electricity_from_renewables_twh'']
     \<inter> (set (field_names CleanedElectricityProduction)
        \<union> set (db_columns CleanedElectricityProduction)) = {}"
    by (simp add: field_names_def db_columns_def model_fields_def)
  show "''primary_energy_consumption_twh''
       \<notin> set (field_names CleanedEnergyProdCons) \<union> set (db_columns CleanedEnergyProdCons)"
    by (simp add: field_names_def db_columns_def model_fields_def)
  show "aggregate CleanedElectricityProduction ElectricityProduction_stats qs
       = Inl (FieldError ''electricity_from_fossil_fuels_twh'')" by (rule aggregate_electricity)
  show "aggregate CleanedEnergyProdCons EnergyProdCons_stats qs
       = Inl (FieldError ''primary_energy_consumption_twh'')" by (rule aggregate_energy)
  show "\<exists>e. ElectricityProduction_summary upper to_int backends params table = Inl e"
    by (cases "get_queryset upper to_int params table")
      (simp_all add: ElectricityProduction_summary_def summary_def aggregate_electricity)
  show "\<exists>e. EnergyProdCons_summary upper to_int backends params table = Inl e"
    by (cases "get_queryset upper to_int params table")
      (simp_all add: EnergyProdCons_summary_def summary_def aggregate_energy)
qed

theorem summary_fields_undeclared_witness:
  "get_queryset ascii_upper parse_int Map.empty sample_table = Inr sample_table
   \<and> ElectricityProduction_summary ascii_upper parse_int (\<lambda>params qs. qs) Map.empty sample_table
       = Inl (FieldError ''electricity_from_fossil_fuels_twh'')
   \<and> EnergyProdCons_summary ascii_upper parse_int (\<lambda>params qs. qs) Map.empty sample_table
       = Inl (FieldError ''primary_energy_consumption_twh'')"
proof -
  have q: "get_queryset ascii_upper parse_int Map.empty sample_table = Inr sample_table"
    by (simp add: get_queryset_def when_given_def when_given_try_def)
  note t = summary_fields_undeclared[of sample_table ascii_upper parse_int "\<lambda>params qs. qs"
      Map.empty sample_table]
  have a: "aggregate CleanedElectricityProduction ElectricityProduction_stats sample_table
       = Inl (FieldError ''electricity_from_fossil_fuels_twh'')"
    using t by (rule conjunct2[THEN conjunct2, THEN conjunct1])
  have b: "aggregate CleanedEnergyProdCons EnergyProdCons_stats sample_table
       = Inl (FieldError ''primary_energy_consumption_twh'')"
    using t by (rule conjunct2[THEN conjunct2, THEN conjunct2, THEN conjunct1])
  have "ElectricityProduction_summary ascii_upper parse_int (\<lambda>params qs. qs) Map.empty sample_table
       = Inl (FieldError ''electricity_from_fossil_fuels_twh'')"
    by (simp add: ElectricityProduction_summary_def summary_def q a)
  moreover have "EnergyProdCons_summary ascii_upper parse_int (\<lambda>params qs. qs) Map.empty sample_table
       = Inl (FieldError ''primary_energy_consumption_twh'')"
    by (simp add: EnergyProdCons_summary_def summary_def q b)
  ultimately show ?thesis using q by (intro conjI)
qed

end
